theory Spec2Isabelle
  imports Complex_Main
begin

section \<open>VariableSizeList: the data model\<close>

text \<open>
  The embedding follows \<^verbatim>\<open>src/VariableSizeList.js\<close> (the version that names its
  entries \<^verbatim>\<open>ItemMetadata\<close>). JavaScript numbers are modelled as mathematical
  integers: item indices, pixel sizes and offsets. A double represents every integer of
  magnitude below \<open>2 ^ 53\<close> exactly, so sums and comparisons of such values agree with
  the model. The only non-integral intermediate value of the source, the argument of
  \<^verbatim>\<open>Math.round\<close>, is a rational.

  Reading a property of \<^verbatim>\<open>undefined\<close> throws a \<^verbatim>\<open>TypeError\<close>. An exception
  does not undo the writes made before it, so every operation that can write returns the
  instance state also when it throws.
\<close>

datatype error = TypeError

record ItemMetadata =
  offset :: int
  size' :: int

record InstanceProps =
  itemMetadataMap :: "int \<rightharpoonup> ItemMetadata"
  estimatedItemSize :: int
  lastMeasuredIndex :: int

datatype Direction = Horizontal | Vertical

datatype ScrollToAlign = Auto | Start | Center | End

record Props =
  direction :: Direction
  height :: int
  width :: int
  itemCount :: int
  itemSize :: "int \<Rightarrow> int"
  estimatedItemSize_prop :: "int option"

type_synonym 'a result = "(error + 'a) \<times> InstanceProps"

definition DEFAULT_ESTIMATED_ITEM_SIZE :: int where
  "DEFAULT_ESTIMATED_ITEM_SIZE = 50"

text \<open>
  \<^verbatim>\<open>v.offset\<close> and \<^verbatim>\<open>v.size\<close> for a value \<open>v\<close> that is an entry or
  \<^verbatim>\<open>undefined\<close> (\<open>None\<close>).
\<close>

definition property :: "(ItemMetadata \<Rightarrow> int) \<Rightarrow> ItemMetadata option \<Rightarrow> error + int" where
  "property field v = (case v of None \<Rightarrow> Inl TypeError | Some md \<Rightarrow> Inr (field md))"

section \<open>The lazy measurer\<close>

text \<open>
  The \<^verbatim>\<open>for\<close> loop of \<^verbatim>\<open>getItemMetadata\<close>: for \<open>i\<close> up to \<open>index\<close>, store
  \<open>{offset, size = itemSize(i)}\<close> at \<open>i\<close> and advance the running offset.
\<close>

function measureLoop ::
  "(int \<Rightarrow> int) \<Rightarrow> int \<Rightarrow> int \<Rightarrow> int \<Rightarrow> (int \<rightharpoonup> ItemMetadata) \<Rightarrow> (int \<rightharpoonup> ItemMetadata)" where
  "measureLoop getter index i off m =
     (if i \<le> index
      then measureLoop getter index (i + 1) (off + getter i)
             (m(i \<mapsto> \<lparr>offset = off, size' = getter i\<rparr>))
      else m)"
  by pat_completeness auto
termination
  by (relation "measure (\<lambda>(getter, index, i, off, m). nat (index + 1 - i))") auto

declare measureLoop.simps [simp del]

definition getItemMetadata ::
  "Props \<Rightarrow> int \<Rightarrow> InstanceProps \<Rightarrow> ItemMetadata option result" where
  "getItemMetadata props index instanceProps =
     (let m = itemMetadataMap instanceProps;
          lmi = lastMeasuredIndex instanceProps
      in if index > lmi then
           (case (if lmi \<ge> 0
                  then (case m lmi of
                          None \<Rightarrow> Inl TypeError
                        | Some md \<Rightarrow> Inr (offset md + size' md))
                  else Inr 0) of
              Inl e \<Rightarrow> (Inl e, instanceProps)
            | Inr off \<Rightarrow>
                (let m' = measureLoop (itemSize props) index (lmi + 1) off m
                 in (Inr (m' index),
                     instanceProps\<lparr>itemMetadataMap := m', lastMeasuredIndex := index\<rparr>)))
         else (Inr (m index), instanceProps))"

text \<open>\<^verbatim>\<open>getItemMetadata(props, index, instanceProps).field\<close>\<close>

definition getItemMetadata_property ::
  "(ItemMetadata \<Rightarrow> int) \<Rightarrow> Props \<Rightarrow> int \<Rightarrow> InstanceProps \<Rightarrow> int result" where
  "getItemMetadata_property field props index instanceProps =
     (case getItemMetadata props index instanceProps of
        (Inl e, ip) \<Rightarrow> (Inl e, ip)
      | (Inr v, ip) \<Rightarrow> (property field v, ip))"

definition getItemOffset :: "Props \<Rightarrow> int \<Rightarrow> InstanceProps \<Rightarrow> int result" where
  "getItemOffset props index instanceProps =
     getItemMetadata_property offset props index instanceProps"

definition getItemSize :: "Props \<Rightarrow> int \<Rightarrow> InstanceProps \<Rightarrow> error + int" where
  "getItemSize props index instanceProps =
     property size' (itemMetadataMap instanceProps index)"

section \<open>The offset locator\<close>

text \<open>
  The \<^verbatim>\<open>while\<close> loop of \<^verbatim>\<open>findNearestItemBinarySearch\<close> with the return
  that follows it. The source tests \<open>currentOffset = offset\<close>, \<open>currentOffset < offset\<close>
  and \<open>currentOffset > offset\<close> in turn; on integers the third test is the remaining case.
\<close>

function findNearestItemBinarySearch ::
  "Props \<Rightarrow> InstanceProps \<Rightarrow> int \<Rightarrow> int \<Rightarrow> int \<Rightarrow> int result" where
  "findNearestItemBinarySearch props instanceProps high low off =
     (if low \<le> high then
        (let middle = low + (high - low) div 2;
             r = getItemMetadata_property offset props middle instanceProps
         in case fst r of
              Inl e \<Rightarrow> (Inl e, snd r)
            | Inr currentOffset \<Rightarrow>
                if currentOffset = off then (Inr middle, snd r)
                else if currentOffset < off
                then findNearestItemBinarySearch props (snd r) high (middle + 1) off
                else findNearestItemBinarySearch props (snd r) (middle - 1) low off)
      else if low > 0 then (Inr (low - 1), instanceProps)
      else (Inr 0, instanceProps))"
  by pat_completeness auto
termination
  by (relation "measure (\<lambda>(props, instanceProps, high, low, off). nat (high + 1 - low))")
     auto

declare findNearestItemBinarySearch.simps [simp del]

text \<open>
  The \<^verbatim>\<open>while\<close> loop of \<^verbatim>\<open>findNearestItemExponentialSearch\<close>, with its two
  variables \<open>index\<close> and \<open>interval\<close>. As a function of both it need not return (an
  interval that is not positive never reaches \<open>itemCount\<close>), so not returning is the
  value \<open>None\<close>; it returns the index at which the loop stops.
\<close>

partial_function (option) exponentialLoop ::
  "Props \<Rightarrow> InstanceProps \<Rightarrow> int \<Rightarrow> int \<Rightarrow> int \<Rightarrow> int result option" where
  "exponentialLoop props instanceProps index interval off =
     (if index < itemCount props then
        (case getItemMetadata_property offset props index instanceProps of
           (Inl e, ip) \<Rightarrow> Some (Inl e, ip)
         | (Inr currentOffset, ip) \<Rightarrow>
             if currentOffset < off
             then exponentialLoop props ip (index + interval) (interval * 2) off
             else Some (Inr index, ip))
      else Some (Inr index, instanceProps))"

definition findNearestItemExponentialSearch ::
  "Props \<Rightarrow> InstanceProps \<Rightarrow> int \<Rightarrow> int \<Rightarrow> int result option" where
  "findNearestItemExponentialSearch props instanceProps index off =
     (case exponentialLoop props instanceProps index 1 off of
        None \<Rightarrow> None
      | Some (Inl e, ip) \<Rightarrow> Some (Inl e, ip)
      | Some (Inr index', ip) \<Rightarrow>
          Some (findNearestItemBinarySearch props ip
                  (min index' (itemCount props - 1)) (index' div 2) off))"

definition findNearestItem :: "Props \<Rightarrow> InstanceProps \<Rightarrow> int \<Rightarrow> int result option" where
  "findNearestItem props instanceProps off =
     (let m = itemMetadataMap instanceProps;
          lmi = lastMeasuredIndex instanceProps
      in case (if lmi > 0 then property offset (m lmi) else Inr 0) of
           Inl e \<Rightarrow> Some (Inl e, instanceProps)
         | Inr lastMeasuredItemOffset \<Rightarrow>
             if lastMeasuredItemOffset \<ge> off
             then Some (findNearestItemBinarySearch props instanceProps lmi 0 off)
             else findNearestItemExponentialSearch props instanceProps lmi off)"

definition getStartIndexForOffset :: "Props \<Rightarrow> int \<Rightarrow> InstanceProps \<Rightarrow> int result option" where
  "getStartIndexForOffset props off instanceProps = findNearestItem props instanceProps off"

section \<open>Total size estimate and alignment\<close>

definition getEstimatedTotalSize :: "Props \<Rightarrow> InstanceProps \<Rightarrow> error + int" where
  "getEstimatedTotalSize props instanceProps =
     (let lmi = lastMeasuredIndex instanceProps
      in case (if lmi \<ge> 0
               then (case itemMetadataMap instanceProps lmi of
                       None \<Rightarrow> Inl TypeError
                     | Some md \<Rightarrow> Inr (offset md + size' md))
               else Inr 0) of
           Inl e \<Rightarrow> Inl e
         | Inr totalSizeOfMeasuredItems \<Rightarrow>
             (let numUnmeasuredItems = itemCount props - lmi - 1;
                  totalSizeOfUnmeasuredItems =
                    numUnmeasuredItems * estimatedItemSize instanceProps
              in Inr (totalSizeOfMeasuredItems + totalSizeOfUnmeasuredItems)))"

text \<open>\<^verbatim>\<open>Math.round\<close>: the nearest integer, a half rounded towards \<open>+\<infinity>\<close>.\<close>

definition Math_round :: "rat \<Rightarrow> int" where
  "Math_round x = \<lfloor>x + 1 / 2\<rfloor>"

text \<open>The size of the viewport along the scroll axis.\<close>

definition viewportSize :: "Props \<Rightarrow> int" where
  "viewportSize props = (if direction props = Horizontal then width props else height props)"

definition getOffsetForIndexAndAlignment ::
  "Props \<Rightarrow> int \<Rightarrow> ScrollToAlign \<Rightarrow> int \<Rightarrow> InstanceProps \<Rightarrow> int result" where
  "getOffsetForIndexAndAlignment props index align scrollOffset instanceProps =
     (let sz = viewportSize props
      in case getItemMetadata props index instanceProps of
           (Inl e, ip) \<Rightarrow> (Inl e, ip)
         | (Inr itemMetadata, ip) \<Rightarrow>
             (case getEstimatedTotalSize props ip of
                Inl e \<Rightarrow> (Inl e, ip)
              | Inr estimatedTotalSize \<Rightarrow>
                  (case itemMetadata of
                     None \<Rightarrow> (Inl TypeError, ip)
                   | Some md \<Rightarrow>
                       (let maxOffset = min (estimatedTotalSize - sz) (offset md);
                            minOffset = max 0 (offset md - sz + size' md)
                        in case align of
                             Start \<Rightarrow> (Inr maxOffset, ip)
                           | End \<Rightarrow> (Inr minOffset, ip)
                           | Center \<Rightarrow>
                               (Inr (Math_round (of_int minOffset
                                       + of_int (maxOffset - minOffset) / 2)), ip)
                           | Auto \<Rightarrow>
                               if scrollOffset \<ge> minOffset \<and> scrollOffset \<le> maxOffset
                               then (Inr scrollOffset, ip)
                               else if scrollOffset - minOffset < maxOffset - scrollOffset
                               then (Inr minOffset, ip)
                               else (Inr maxOffset, ip)))))"

section \<open>The window calculator\<close>

text \<open>The \<^verbatim>\<open>while\<close> loop of \<^verbatim>\<open>getStopIndexForStartIndex\<close>.\<close>

function stopIndexLoop :: "Props \<Rightarrow> int \<Rightarrow> int \<Rightarrow> int \<Rightarrow> InstanceProps \<Rightarrow> int result" where
  "stopIndexLoop props maxOffset stopIndex off instanceProps =
     (if stopIndex < itemCount props - 1 \<and> off < maxOffset then
        (let r = getItemMetadata_property size' props (stopIndex + 1) instanceProps
         in case fst r of
              Inl e \<Rightarrow> (Inl e, snd r)
            | Inr sz \<Rightarrow> stopIndexLoop props maxOffset (stopIndex + 1) (off + sz) (snd r))
      else (Inr stopIndex, instanceProps))"
  by pat_completeness auto
termination
  by (relation "measure (\<lambda>(props, maxOffset, stopIndex, off, instanceProps).
                  nat (itemCount props - stopIndex))")
     auto

declare stopIndexLoop.simps [simp del]

definition getStopIndexForStartIndex ::
  "Props \<Rightarrow> int \<Rightarrow> int \<Rightarrow> InstanceProps \<Rightarrow> int result" where
  "getStopIndexForStartIndex props startIndex scrollOffset instanceProps =
     (let sz = viewportSize props
      in case getItemMetadata props startIndex instanceProps of
           (Inl e, ip) \<Rightarrow> (Inl e, ip)
         | (Inr None, ip) \<Rightarrow> (Inl TypeError, ip)
         | (Inr (Some md), ip) \<Rightarrow>
             (let maxOffset = scrollOffset + sz
              in stopIndexLoop props maxOffset startIndex (offset md + size' md) ip))"

section \<open>Creation and invalidation\<close>

text \<open>
  \<^verbatim>\<open>estimatedItemSize || DEFAULT_ESTIMATED_ITEM_SIZE\<close>: an absent or zero
  \<^verbatim>\<open>estimatedItemSize\<close> is falsy.
\<close>

definition initInstanceProps :: "Props \<Rightarrow> InstanceProps" where
  "initInstanceProps props =
     \<lparr>itemMetadataMap = Map.empty,
      estimatedItemSize =
        (case estimatedItemSize_prop props of
           None \<Rightarrow> DEFAULT_ESTIMATED_ITEM_SIZE
         | Some e \<Rightarrow> if e = 0 then DEFAULT_ESTIMATED_ITEM_SIZE else e),
      lastMeasuredIndex = - 1\<rparr>"

text \<open>
  \<^verbatim>\<open>instance.resetAfterIndex\<close>, as far as it acts on the instance properties. The
  style cache it clears and the re-render it requests belong to the list component.
\<close>

definition resetAfterIndex :: "int \<Rightarrow> InstanceProps \<Rightarrow> InstanceProps" where
  "resetAfterIndex index instanceProps =
     instanceProps\<lparr>lastMeasuredIndex := min (lastMeasuredIndex instanceProps) (index - 1)\<rparr>"

text \<open>
  The earlier revision of the file (the one that names its entries \<^verbatim>\<open>CellMetadata\<close>)
  assigned \<open>index - 1\<close> without the minimum.
\<close>

definition resetAfterIndex_cell :: "int \<Rightarrow> InstanceProps \<Rightarrow> InstanceProps" where
  "resetAfterIndex_cell index instanceProps =
     instanceProps\<lparr>lastMeasuredIndex := index - 1\<rparr>"

section \<open>Sequences of operations\<close>

text \<open>
  The operations the list component performs on one instance. Every operation carries the
  props of the render that performs it, since \<^verbatim>\<open>itemSize\<close> may change between
  renders. \<open>perform\<close> returns the instance state the operation leaves behind, also when
  it throws; \<open>None\<close> stands for an operation that does not return.
\<close>

datatype Operation =
  GetMetadata int
| FindIndexForOffset int
| FindStopIndex int int
| GetOffsetForAlignment int ScrollToAlign int
| InvalidateAfter int

fun perform :: "Props \<Rightarrow> Operation \<Rightarrow> InstanceProps \<Rightarrow> InstanceProps option" where
  "perform p (GetMetadata index) s = Some (snd (getItemMetadata p index s))"
| "perform p (FindIndexForOffset off) s = map_option snd (getStartIndexForOffset p off s)"
| "perform p (FindStopIndex startIndex scrollOffset) s =
     Some (snd (getStopIndexForStartIndex p startIndex scrollOffset s))"
| "perform p (GetOffsetForAlignment index align scrollOffset) s =
     Some (snd (getOffsetForIndexAndAlignment p index align scrollOffset s))"
| "perform p (InvalidateAfter index) s = Some (resetAfterIndex index s)"

fun performAll :: "(Props \<times> Operation) list \<Rightarrow> InstanceProps \<Rightarrow> InstanceProps option" where
  "performAll [] s = Some s"
| "performAll (po # rest) s =
     (case perform (fst po) (snd po) s of
        None \<Rightarrow> None
      | Some s' \<Rightarrow> performAll rest s')"

text \<open>
  The operations the invariant of the store is stated for: an invalidation whose index is
  at least \<open>0\<close>, and every other operation.
\<close>

fun validOperation :: "Operation \<Rightarrow> bool" where
  "validOperation (InvalidateAfter index) = (0 \<le> index)"
| "validOperation _ = True"

fun isInvalidation :: "Operation \<Rightarrow> bool" where
  "isInvalidation (InvalidateAfter index) = True"
| "isInvalidation _ = False"

section \<open>Notions used to state the properties\<close>

text \<open>The size stored for item \<open>j\<close> (\<open>0\<close> where nothing is stored).\<close>

definition storedSize :: "(int \<rightharpoonup> ItemMetadata) \<Rightarrow> int \<Rightarrow> int" where
  "storedSize m j = (case m j of None \<Rightarrow> 0 | Some md \<Rightarrow> size' md)"

text \<open>
  The invariant of the metadata store: the watermark is at least \<open>-1\<close>, and every item up
  to the watermark has an entry whose offset is the sum of the sizes stored before it.
\<close>

definition wellFormed :: "InstanceProps \<Rightarrow> bool" where
  "wellFormed s \<longleftrightarrow>
     - 1 \<le> lastMeasuredIndex s \<and>
     (\<forall>i\<in>{0..lastMeasuredIndex s}.
        \<exists>md. itemMetadataMap s i = Some md \<and>
             offset md = (\<Sum>j = 0..<i. storedSize (itemMetadataMap s) j))"

text \<open>No entry lies beyond the watermark: nothing has been invalidated.\<close>

definition nothingStale :: "InstanceProps \<Rightarrow> bool" where
  "nothingStale s \<longleftrightarrow> (\<forall>j. lastMeasuredIndex s < j \<longrightarrow> itemMetadataMap s j = None)"

text \<open>
  The layout the list has in state \<open>s\<close> under props \<open>p\<close>: the stored size up to the
  watermark, \<open>itemSize\<close> beyond it; the offset of an item is the sum of the sizes before it.
\<close>

definition exactSize :: "Props \<Rightarrow> InstanceProps \<Rightarrow> int \<Rightarrow> int" where
  "exactSize p s j =
     (if j \<le> lastMeasuredIndex s then storedSize (itemMetadataMap s) j else itemSize p j)"

definition exactOffset :: "Props \<Rightarrow> InstanceProps \<Rightarrow> int \<Rightarrow> int" where
  "exactOffset p s i = (\<Sum>j = 0..<i. exactSize p s j)"

definition positiveSizes :: "Props \<Rightarrow> InstanceProps \<Rightarrow> bool" where
  "positiveSizes p s \<longleftrightarrow> (\<forall>j. 0 \<le> j \<longrightarrow> 0 < exactSize p s j)"

definition storedPositive :: "InstanceProps \<Rightarrow> bool" where
  "storedPositive s \<longleftrightarrow> (\<forall>j\<in>{0..lastMeasuredIndex s}. 0 < storedSize (itemMetadataMap s) j)"

text \<open>The state after measuring up to \<open>index\<close>.\<close>

definition measured :: "Props \<Rightarrow> int \<Rightarrow> InstanceProps \<Rightarrow> InstanceProps" where
  "measured p index s = snd (getItemMetadata p index s)"

text \<open>
  \<open>s'\<close> is a well-formed state with the layout and the estimate of \<open>s\<close> and a
  watermark that is not lower.
\<close>

definition extends :: "Props \<Rightarrow> InstanceProps \<Rightarrow> InstanceProps \<Rightarrow> bool" where
  "extends p s s' \<longleftrightarrow>
     wellFormed s' \<and> exactSize p s' = exactSize p s \<and>
     estimatedItemSize s' = estimatedItemSize s \<and>
     lastMeasuredIndex s \<le> lastMeasuredIndex s'"

text \<open>
  The estimate of the total size as the specification words it: the measured total, which
  is the offset plus the size of the last measured item (\<open>0\<close> if nothing is measured),
  plus the estimated size for every unmeasured item.
\<close>

definition spec_estimatedTotalSize :: "Props \<Rightarrow> InstanceProps \<Rightarrow> int" where
  "spec_estimatedTotalSize p s =
     (let measuredTotal =
            (if lastMeasuredIndex s = - 1 then 0
             else (case itemMetadataMap s (lastMeasuredIndex s) of
                     None \<Rightarrow> 0
                   | Some md \<Rightarrow> offset md + size' md));
          unmeasuredCount = itemCount p - lastMeasuredIndex s - 1
      in measuredTotal + unmeasuredCount * estimatedItemSize s)"

text \<open>
  A vertical list of \<open>count\<close> items in a viewport of height \<open>100\<close>, as the tests of the
  repository set it up.
\<close>

definition listProps :: "int \<Rightarrow> (int \<Rightarrow> int) \<Rightarrow> int \<Rightarrow> Props" where
  "listProps count getter estimate =
     \<lparr>direction = Vertical, height = 100, width = 50, itemCount = count,
      itemSize = getter, estimatedItemSize_prop = Some estimate\<rparr>"

section \<open>Lemmas on the lazy measurer\<close>

lemma sum_int_ivl_Suc:
  "a \<le> (i::int) \<Longrightarrow> (\<Sum>j = a..<i + 1. f j) = (\<Sum>j = a..<i. f j) + (f i :: int)"
proof -
  assume "a \<le> i"
  then have "{a..<i + 1} = insert i {a..<i}" by auto
  then show ?thesis by simp
qed

lemma sum_int_ivl_concat:
  "a \<le> (b::int) \<Longrightarrow> b \<le> c \<Longrightarrow>
   (\<Sum>j = a..<b. f j) + (\<Sum>j = b..<c. f j) = (\<Sum>j = a..<c. f j :: int)"
proof -
  assume "a \<le> b" "b \<le> c"
  then have "{a..<c} = {a..<b} \<union> {b..<c}" by auto
  moreover have "{a..<b} \<inter> {b..<c} = {}" by auto
  ultimately show ?thesis by (simp add: sum.union_disjoint)
qed

lemma measureLoop_outside:
  "j < i \<or> index < j \<Longrightarrow> measureLoop g index i off m j = m j"
proof (induction g index i off m rule: measureLoop.induct)
  case (1 g index i off m)
  show ?case
  proof (cases "i \<le> index")
    case True
    have "j \<noteq> i" using True 1(2) by auto
    moreover have "j < i + 1 \<or> index < j" using 1(2) by auto
    ultimately show ?thesis using True 1(1)[OF True]
      by (subst measureLoop.simps) (simp del: fun_upd_apply add: fun_upd_other)
  next
    case False
    then show ?thesis by (subst measureLoop.simps) simp
  qed
qed

lemma measureLoop_inside:
  "i \<le> j \<Longrightarrow> j \<le> index \<Longrightarrow>
   measureLoop g index i off m j = Some \<lparr>offset = off + (\<Sum>k = i..<j. g k), size' = g j\<rparr>"
proof (induction g index i off m rule: measureLoop.induct)
  case (1 g index i off m)
  from 1(2,3) have le: "i \<le> index" by simp
  show ?case
  proof (cases "i = j")
    case True
    then show ?thesis using le
      by (subst measureLoop.simps) (simp add: measureLoop_outside)
  next
    case False
    with 1(2) have lt: "i + 1 \<le> j" by simp
    have "{i..<j} = insert i {i + 1..<j}" using lt by auto
    then have "(\<Sum>k = i..<j. g k) = g i + (\<Sum>k = i + 1..<j. g k)" by simp
    then show ?thesis using le 1(1)[OF le lt 1(3)]
      by (subst measureLoop.simps) (simp del: fun_upd_apply add: add.assoc)
  qed
qed

lemma exactOffset_stored:
  "i \<le> lastMeasuredIndex s + 1 \<Longrightarrow>
   exactOffset p s i = (\<Sum>j = 0..<i. storedSize (itemMetadataMap s) j)"
  unfolding exactOffset_def by (rule sum.cong) (auto simp: exactSize_def)

lemma exactOffset_0 [simp]: "exactOffset p s 0 = 0"
  by (simp add: exactOffset_def)

lemma exactOffset_Suc: "0 \<le> i \<Longrightarrow> exactOffset p s (i + 1) = exactOffset p s i + exactSize p s i"
  by (simp add: exactOffset_def sum_int_ivl_Suc)

lemma wellFormed_exact:
  "wellFormed s \<longleftrightarrow>
     - 1 \<le> lastMeasuredIndex s \<and>
     (\<forall>i. 0 \<le> i \<and> i \<le> lastMeasuredIndex s \<longrightarrow>
        itemMetadataMap s i = Some \<lparr>offset = exactOffset p s i, size' = exactSize p s i\<rparr>)"
  (is "?L \<longleftrightarrow> ?R")
proof
  assume L: ?L
  show ?R
  proof (intro conjI allI impI)
    show "- 1 \<le> lastMeasuredIndex s" using L by (simp add: wellFormed_def)
  next
    fix i assume i: "0 \<le> i \<and> i \<le> lastMeasuredIndex s"
    then have "i \<in> {0..lastMeasuredIndex s}" by simp
    then obtain md where md: "itemMetadataMap s i = Some md"
      "offset md = (\<Sum>j = 0..<i. storedSize (itemMetadataMap s) j)"
      using L unfolding wellFormed_def by blast
    have "size' md = exactSize p s i" using md(1) i by (simp add: exactSize_def storedSize_def)
    moreover have "offset md = exactOffset p s i" using md(2) i by (simp add: exactOffset_stored)
    ultimately show "itemMetadataMap s i = Some \<lparr>offset = exactOffset p s i, size' = exactSize p s i\<rparr>"
      using md(1) by simp
  qed
next
  assume R: ?R
  show ?L unfolding wellFormed_def
  proof (intro conjI ballI)
    show "- 1 \<le> lastMeasuredIndex s" using R by simp
  next
    fix i assume "i \<in> {0..lastMeasuredIndex s}"
    then have i: "0 \<le> i \<and> i \<le> lastMeasuredIndex s" by simp
    with R have "itemMetadataMap s i = Some \<lparr>offset = exactOffset p s i, size' = exactSize p s i\<rparr>"
      by blast
    moreover have "exactOffset p s i = (\<Sum>j = 0..<i. storedSize (itemMetadataMap s) j)"
      using i by (simp add: exactOffset_stored)
    ultimately show "\<exists>md. itemMetadataMap s i = Some md \<and>
        offset md = (\<Sum>j = 0..<i. storedSize (itemMetadataMap s) j)" by simp
  qed
qed

lemma getItemMetadata_cached:
  "index \<le> lastMeasuredIndex s \<Longrightarrow> getItemMetadata p index s = (Inr (itemMetadataMap s index), s)"
  by (simp add: getItemMetadata_def)

lemma measuredTotal:
  assumes "wellFormed s"
  shows "(if lastMeasuredIndex s \<ge> 0
          then (case itemMetadataMap s (lastMeasuredIndex s) of
                  None \<Rightarrow> Inl TypeError
                | Some md \<Rightarrow> Inr (offset md + size' md))
          else Inr 0) = Inr (exactOffset p s (lastMeasuredIndex s + 1))"
proof (cases "lastMeasuredIndex s \<ge> 0")
  case True
  then have "itemMetadataMap s (lastMeasuredIndex s) =
      Some \<lparr>offset = exactOffset p s (lastMeasuredIndex s),
            size' = exactSize p s (lastMeasuredIndex s)\<rparr>"
    using assms wellFormed_exact[of s p] by simp
  then show ?thesis using True by (simp add: exactOffset_Suc)
next
  case False
  with assms have "lastMeasuredIndex s = - 1" by (simp add: wellFormed_def)
  with False show ?thesis by simp
qed

lemma getItemMetadata_measure:
  assumes "wellFormed s" "lastMeasuredIndex s < index"
  shows "getItemMetadata p index s =
    (Inr (measureLoop (itemSize p) index (lastMeasuredIndex s + 1)
            (exactOffset p s (lastMeasuredIndex s + 1)) (itemMetadataMap s) index),
     s\<lparr>itemMetadataMap := measureLoop (itemSize p) index (lastMeasuredIndex s + 1)
            (exactOffset p s (lastMeasuredIndex s + 1)) (itemMetadataMap s),
       lastMeasuredIndex := index\<rparr>)"
  using assms(2) measuredTotal[OF assms(1), of p]
  by (simp add: getItemMetadata_def Let_def)

lemma measured_entry:
  assumes wf: "wellFormed s" and lt: "lastMeasuredIndex s < index"
      and j: "0 \<le> j" "j \<le> index"
  shows "itemMetadataMap (measured p index s) j =
         Some \<lparr>offset = exactOffset p s j, size' = exactSize p s j\<rparr>"
proof (cases "j \<le> lastMeasuredIndex s")
  case True
  then have "itemMetadataMap (measured p index s) j = itemMetadataMap s j"
    using wf lt by (simp add: measured_def getItemMetadata_measure measureLoop_outside)
  then show ?thesis using wf True j wellFormed_exact[of s p] by simp
next
  case False
  let ?l = "lastMeasuredIndex s"
  from False have lj: "?l + 1 \<le> j" by simp
  have l0: "0 \<le> ?l + 1" using wf by (simp add: wellFormed_def)
  have "(\<Sum>k = ?l + 1..<j. itemSize p k) = (\<Sum>k = ?l + 1..<j. exactSize p s k)"
    by (rule sum.cong) (auto simp: exactSize_def)
  then have "exactOffset p s (?l + 1) + (\<Sum>k = ?l + 1..<j. itemSize p k) = exactOffset p s j"
    unfolding exactOffset_def using sum_int_ivl_concat[OF l0 lj, of "exactSize p s"]
    by simp
  moreover have "itemSize p j = exactSize p s j" using False by (simp add: exactSize_def)
  ultimately show ?thesis using wf lt lj j
    by (simp add: measured_def getItemMetadata_measure measureLoop_inside)
qed

lemma measured_lastMeasuredIndex:
  "wellFormed s \<Longrightarrow> lastMeasuredIndex (measured p index s) = max (lastMeasuredIndex s) index"
  by (cases "index \<le> lastMeasuredIndex s")
     (simp_all add: measured_def getItemMetadata_cached getItemMetadata_measure)

lemma measured_estimatedItemSize:
  "wellFormed s \<Longrightarrow> estimatedItemSize (measured p index s) = estimatedItemSize s"
  by (cases "index \<le> lastMeasuredIndex s")
     (simp_all add: measured_def getItemMetadata_cached getItemMetadata_measure)

lemma measured_exactSize:
  assumes wf: "wellFormed s"
  shows "exactSize p (measured p index s) = exactSize p s"
proof (cases "index \<le> lastMeasuredIndex s")
  case True
  then show ?thesis by (simp add: measured_def getItemMetadata_cached)
next
  case False
  then have lt: "lastMeasuredIndex s < index" by simp
  have l0: "- 1 \<le> lastMeasuredIndex s" using wf by (simp add: wellFormed_def)
  show ?thesis
  proof
    fix j
    consider "j < 0" | "0 \<le> j" "j \<le> index" | "index < j" by linarith
    then show "exactSize p (measured p index s) j = exactSize p s j"
    proof cases
      case 1
      then have "itemMetadataMap (measured p index s) j = itemMetadataMap s j"
        using wf lt l0 by (simp add: measured_def getItemMetadata_measure measureLoop_outside)
      then show ?thesis using 1 l0 lt wf
        by (simp add: exactSize_def storedSize_def measured_lastMeasuredIndex)
    next
      case 2
      then show ?thesis using measured_entry[OF wf lt 2, of p] lt wf
        by (simp add: exactSize_def[of p "measured p index s"] storedSize_def
              measured_lastMeasuredIndex)
    next
      case 3
      then show ?thesis using lt wf
        by (simp add: exactSize_def measured_lastMeasuredIndex)
    qed
  qed
qed

lemma measured_exactOffset:
  "wellFormed s \<Longrightarrow> exactOffset p (measured p index s) = exactOffset p s"
  by (rule ext) (simp add: exactOffset_def measured_exactSize)

lemma measured_wellFormed:
  assumes wf: "wellFormed s"
  shows "wellFormed (measured p index s)"
proof (cases "index \<le> lastMeasuredIndex s")
  case True
  then show ?thesis using wf by (simp add: measured_def getItemMetadata_cached)
next
  case False
  then have lt: "lastMeasuredIndex s < index" by simp
  have l0: "- 1 \<le> lastMeasuredIndex s" using wf by (simp add: wellFormed_def)
  show ?thesis
    unfolding wellFormed_exact[of _ p]
    using lt l0 measured_entry[OF wf lt, of _ p]
    by (simp add: measured_lastMeasuredIndex[OF wf] measured_exactSize[OF wf]
          measured_exactOffset[OF wf])
qed

lemma getItemMetadata_wellFormed:
  assumes wf: "wellFormed s" and i: "0 \<le> index"
  shows "getItemMetadata p index s =
         (Inr (Some \<lparr>offset = exactOffset p s index, size' = exactSize p s index\<rparr>),
          measured p index s)"
proof (cases "index \<le> lastMeasuredIndex s")
  case True
  then show ?thesis using wf i wellFormed_exact[of s p]
    by (simp add: measured_def getItemMetadata_cached)
next
  case False
  then have lt: "lastMeasuredIndex s < index" by simp
  have "fst (getItemMetadata p index s) = Inr (itemMetadataMap (measured p index s) index)"
    using wf lt by (simp add: getItemMetadata_measure measured_def)
  then show ?thesis using measured_entry[OF wf lt i, of p]
    by (simp add: measured_def prod_eq_iff)
qed

section \<open>States that extend the measured range\<close>

lemma extends_refl: "wellFormed s \<Longrightarrow> extends p s s"
  by (simp add: extends_def)

lemma extends_trans: "extends p s s' \<Longrightarrow> extends p s' s'' \<Longrightarrow> extends p s s''"
  by (simp add: extends_def)

lemma extends_measured: "wellFormed s \<Longrightarrow> extends p s (measured p index s)"
  by (simp add: extends_def measured_wellFormed measured_exactSize measured_estimatedItemSize
        measured_lastMeasuredIndex)

lemma extends_exactOffset: "extends p s s' \<Longrightarrow> exactOffset p s' = exactOffset p s"
  by (rule ext) (simp add: exactOffset_def extends_def)

lemma extends_positiveSizes: "extends p s s' \<Longrightarrow> positiveSizes p s \<Longrightarrow> positiveSizes p s'"
  by (simp add: positiveSizes_def extends_def)

lemma getItemMetadata_property_wellFormed:
  "wellFormed s \<Longrightarrow> 0 \<le> index \<Longrightarrow>
   getItemMetadata_property field p index s =
     (Inr (field \<lparr>offset = exactOffset p s index, size' = exactSize p s index\<rparr>),
      measured p index s)"
  by (simp add: getItemMetadata_property_def getItemMetadata_wellFormed property_def)

lemma exactOffset_mono:
  assumes "positiveSizes p s" "0 \<le> i" "i < j"
  shows "exactOffset p s i < exactOffset p s j"
proof -
  have "exactOffset p s j = exactOffset p s i + (\<Sum>k = i..<j. exactSize p s k)"
    unfolding exactOffset_def using assms sum_int_ivl_concat[of 0 i j "exactSize p s"] by simp
  moreover have "0 < (\<Sum>k = i..<j. exactSize p s k)"
    using assms by (intro sum_pos) (auto simp: positiveSizes_def)
  ultimately show ?thesis by simp
qed

lemma exactOffset_mono_le:
  "positiveSizes p s \<Longrightarrow> 0 \<le> i \<Longrightarrow> i \<le> j \<Longrightarrow> exactOffset p s i \<le> exactOffset p s j"
  using exactOffset_mono[of p s i j] by (cases "i = j") auto

section \<open>Correctness of the two searches\<close>

lemma binarySearch_correct:
  "wellFormed s \<Longrightarrow> positiveSizes p s \<Longrightarrow> 0 \<le> off \<Longrightarrow> 0 \<le> low \<Longrightarrow> low \<le> high + 1 \<Longrightarrow>
   (0 < low \<longrightarrow> exactOffset p s (low - 1) < off) \<Longrightarrow> off < exactOffset p s (high + 1) \<Longrightarrow>
   \<exists>r s'. findNearestItemBinarySearch p s high low off = (Inr r, s') \<and>
          0 \<le> r \<and> r \<le> high \<and>
          exactOffset p s r \<le> off \<and> off < exactOffset p s (r + 1) \<and> extends p s s'"
proof (induction p s high low off rule: findNearestItemBinarySearch.induct)
  case (1 p s high low off)
  note wf = \<open>wellFormed s\<close> and pos = \<open>positiveSizes p s\<close>
  show ?case
  proof (cases "low \<le> high")
    case False
    with "1.prems" have hl: "high = low - 1" by simp
    have low0: "0 < low"
    proof (rule ccontr)
      assume "\<not> 0 < low"
      with "1.prems" have "low = 0" by simp
      with hl "1.prems" show False by simp
    qed
    have "findNearestItemBinarySearch p s high low off = (Inr (low - 1), s)"
      using False low0 by (subst findNearestItemBinarySearch.simps) simp
    moreover have "exactOffset p s (low - 1) \<le> off" using "1.prems" low0 by simp
    moreover have "off < exactOffset p s (low - 1 + 1)" using "1.prems" hl by simp
    ultimately show ?thesis using low0 hl wf by (auto simp: extends_refl)
  next
    case True
    define middle where "middle = low + (high - low) div 2"
    define r where "r = getItemMetadata_property offset p middle s"
    have mid: "low \<le> middle" "middle \<le> high" "0 \<le> middle"
      using True "1.prems" by (auto simp: middle_def)
    have r: "r = (Inr (exactOffset p s middle), measured p middle s)"
      using wf mid by (simp add: r_def getItemMetadata_property_wellFormed)
    let ?s' = "measured p middle s"
    have ext: "extends p s ?s'" using wf by (rule extends_measured)
    have wf': "wellFormed ?s'" using ext by (simp add: extends_def)
    have pos': "positiveSizes p ?s'" using ext pos by (rule extends_positiveSizes)
    have E': "exactOffset p ?s' = exactOffset p s" using ext by (rule extends_exactOffset)
    consider (eq) "exactOffset p s middle = off"
      | (lt) "exactOffset p s middle < off"
      | (gt) "off < exactOffset p s middle" by linarith
    then show ?thesis
    proof cases
      case eq
      have "findNearestItemBinarySearch p s high low off = (Inr middle, ?s')"
        using True r eq
        by (subst findNearestItemBinarySearch.simps)
           (simp add: Let_def middle_def[symmetric] r_def[symmetric])
      moreover have "off < exactOffset p s (middle + 1)"
        using eq exactOffset_mono[OF pos mid(3), of "middle + 1"] by simp
      ultimately show ?thesis using mid eq ext by auto
    next
      case lt
      have step: "findNearestItemBinarySearch p s high low off =
                  findNearestItemBinarySearch p ?s' high (middle + 1) off"
        using True r lt
        by (subst findNearestItemBinarySearch.simps)
           (simp add: Let_def middle_def[symmetric] r_def[symmetric])
      have "\<exists>r' s''. findNearestItemBinarySearch p (snd r) high (middle + 1) off = (Inr r', s'') \<and>
              0 \<le> r' \<and> r' \<le> high \<and> exactOffset p (snd r) r' \<le> off \<and>
              off < exactOffset p (snd r) (r' + 1) \<and> extends p (snd r) s''"
      proof (rule "1.IH"(1)[OF True middle_def r_def])
        show "fst r = Inr (exactOffset p s middle)" using r by simp
        show "exactOffset p s middle \<noteq> off" using lt by simp
        show "exactOffset p s middle < off" by (rule lt)
        show "wellFormed (snd r)" using r wf' by simp
        show "positiveSizes p (snd r)" using r pos' by simp
        show "0 \<le> off" by fact
        show "0 \<le> middle + 1" using mid by simp
        show "middle + 1 \<le> high + 1" using mid by simp
        show "0 < middle + 1 \<longrightarrow> exactOffset p (snd r) (middle + 1 - 1) < off"
          using r E' lt by simp
        show "off < exactOffset p (snd r) (high + 1)" using r E' "1.prems" by simp
      qed
      then obtain r' s'' where res:
        "findNearestItemBinarySearch p ?s' high (middle + 1) off = (Inr r', s'')"
        "0 \<le> r'" "r' \<le> high" "exactOffset p s r' \<le> off" "off < exactOffset p s (r' + 1)"
        "extends p ?s' s''"
        using r E' by auto
      then show ?thesis using step extends_trans[OF ext res(6)] by auto
    next
      case gt
      have step: "findNearestItemBinarySearch p s high low off =
                  findNearestItemBinarySearch p ?s' (middle - 1) low off"
        using True r gt
        by (subst findNearestItemBinarySearch.simps)
           (simp add: Let_def middle_def[symmetric] r_def[symmetric])
      have "\<exists>r' s''. findNearestItemBinarySearch p (snd r) (middle - 1) low off = (Inr r', s'') \<and>
              0 \<le> r' \<and> r' \<le> middle - 1 \<and> exactOffset p (snd r) r' \<le> off \<and>
              off < exactOffset p (snd r) (r' + 1) \<and> extends p (snd r) s''"
      proof (rule "1.IH"(2)[OF True middle_def r_def])
        show "fst r = Inr (exactOffset p s middle)" using r by simp
        show "exactOffset p s middle \<noteq> off" using gt by simp
        show "\<not> exactOffset p s middle < off" using gt by simp
        show "wellFormed (snd r)" using r wf' by simp
        show "positiveSizes p (snd r)" using r pos' by simp
        show "0 \<le> off" by fact
        show "0 \<le> low" by fact
        show "low \<le> middle - 1 + 1" using mid by simp
        show "0 < low \<longrightarrow> exactOffset p (snd r) (low - 1) < off"
          using r E' "1.prems" by simp
        show "off < exactOffset p (snd r) (middle - 1 + 1)" using r E' gt by simp
      qed
      then obtain r' s'' where res:
        "findNearestItemBinarySearch p ?s' (middle - 1) low off = (Inr r', s'')"
        "0 \<le> r'" "r' \<le> middle - 1" "exactOffset p s r' \<le> off" "off < exactOffset p s (r' + 1)"
        "extends p ?s' s''"
        using r E' by auto
      then show ?thesis using step mid extends_trans[OF ext res(6)] by auto
    qed
  qed
qed

lemma exponentialLoop_correct:
  "wellFormed s \<Longrightarrow> positiveSizes p s \<Longrightarrow> 0 \<le> index \<Longrightarrow> 1 \<le> interval \<Longrightarrow>
   interval \<le> index + 1 \<Longrightarrow> index div 2 \<le> itemCount p - 1 \<Longrightarrow>
   exactOffset p s (index div 2) \<le> off \<Longrightarrow>
   \<exists>idx s'. exponentialLoop p s index interval off = Some (Inr idx, s') \<and>
            0 \<le> idx \<and> idx div 2 \<le> itemCount p - 1 \<and>
            exactOffset p s (idx div 2) \<le> off \<and>
            (idx < itemCount p \<longrightarrow> off \<le> exactOffset p s idx) \<and> extends p s s'"
proof (induction "nat (itemCount p - index)" arbitrary: s index interval rule: less_induct)
  case less
  note wf = \<open>wellFormed s\<close> and pos = \<open>positiveSizes p s\<close>
  show ?case
  proof (cases "index < itemCount p")
    case False
    then have "exponentialLoop p s index interval off = Some (Inr index, s)"
      by (subst exponentialLoop.simps) simp
    then show ?thesis using False less.prems by (auto simp: extends_refl)
  next
    case True
    let ?s' = "measured p index s"
    have r: "getItemMetadata_property offset p index s = (Inr (exactOffset p s index), ?s')"
      using wf less.prems by (simp add: getItemMetadata_property_wellFormed)
    have ext: "extends p s ?s'" using wf by (rule extends_measured)
    have E': "exactOffset p ?s' = exactOffset p s" using ext by (rule extends_exactOffset)
    show ?thesis
    proof (cases "exactOffset p s index < off")
      case False
      then have "exponentialLoop p s index interval off = Some (Inr index, ?s')"
        using True r by (subst exponentialLoop.simps) simp
      then show ?thesis using False less.prems ext by auto
    next
      case lt: True
      have step: "exponentialLoop p s index interval off =
                  exponentialLoop p ?s' (index + interval) (interval * 2) off"
        using True r lt by (subst exponentialLoop.simps) simp
      have half: "(index + interval) div 2 \<le> index" using less.prems by simp
      have half0: "0 \<le> (index + interval) div 2" using less.prems by simp
      have "\<exists>idx s''. exponentialLoop p ?s' (index + interval) (interval * 2) off =
                Some (Inr idx, s'') \<and>
              0 \<le> idx \<and> idx div 2 \<le> itemCount p - 1 \<and>
              exactOffset p ?s' (idx div 2) \<le> off \<and>
              (idx < itemCount p \<longrightarrow> off \<le> exactOffset p ?s' idx) \<and> extends p ?s' s''"
      proof (rule less.hyps)
        show "nat (itemCount p - (index + interval)) < nat (itemCount p - index)"
          using True less.prems by simp
        show "wellFormed ?s'" using ext by (simp add: extends_def)
        show "positiveSizes p ?s'" using ext pos by (rule extends_positiveSizes)
        show "0 \<le> index + interval" using less.prems by simp
        show "1 \<le> interval * 2" using less.prems by simp
        show "interval * 2 \<le> index + interval + 1" using less.prems by simp
        show "(index + interval) div 2 \<le> itemCount p - 1" using half True by simp
        show "exactOffset p ?s' ((index + interval) div 2) \<le> off"
          using exactOffset_mono_le[OF pos half0 half] lt E' by simp
      qed
      then obtain idx s'' where res:
        "exponentialLoop p ?s' (index + interval) (interval * 2) off = Some (Inr idx, s'')"
        "0 \<le> idx" "idx div 2 \<le> itemCount p - 1" "exactOffset p s (idx div 2) \<le> off"
        "idx < itemCount p \<longrightarrow> off \<le> exactOffset p s idx" "extends p ?s' s''"
        using E' by auto
      then show ?thesis using step extends_trans[OF ext res(6)] by auto
    qed
  qed
qed

lemma exponentialSearch_correct:
  assumes wf: "wellFormed s" and pos: "positiveSizes p s"
      and idx: "0 \<le> index" "index \<le> itemCount p - 1"
      and lo: "exactOffset p s index < off"
      and hi: "off < exactOffset p s (itemCount p)"
  shows "\<exists>r s'. findNearestItemExponentialSearch p s index off = Some (Inr r, s') \<and>
            0 \<le> r \<and> r \<le> itemCount p - 1 \<and>
            exactOffset p s r \<le> off \<and> off < exactOffset p s (r + 1) \<and> extends p s s'"
proof -
  have off0: "0 \<le> off"
    using exactOffset_mono_le[OF pos _ idx(1)] lo by simp
  have "index div 2 \<le> index" using idx by simp
  moreover have "0 \<le> index div 2" using idx by simp
  ultimately have "exactOffset p s (index div 2) \<le> off" "index div 2 \<le> itemCount p - 1"
    using exactOffset_mono_le[OF pos, of "index div 2" index] lo idx by auto
  with exponentialLoop_correct[OF wf pos idx(1), of 1 off] idx
  obtain i s1 where loop:
    "exponentialLoop p s index 1 off = Some (Inr i, s1)"
    "0 \<le> i" "i div 2 \<le> itemCount p - 1" "exactOffset p s (i div 2) \<le> off"
    "i < itemCount p \<longrightarrow> off \<le> exactOffset p s i" "extends p s s1"
    by auto
  have E1: "exactOffset p s1 = exactOffset p s" using loop(6) by (rule extends_exactOffset)
  have wf1: "wellFormed s1" using loop(6) by (simp add: extends_def)
  have pos1: "positiveSizes p s1" using loop(6) pos by (rule extends_positiveSizes)
  let ?high = "min i (itemCount p - 1)" and ?low = "i div 2"
  have low0: "0 \<le> ?low" using loop(2) by simp
  have "\<exists>r s'. findNearestItemBinarySearch p s1 ?high ?low off = (Inr r, s') \<and>
          0 \<le> r \<and> r \<le> ?high \<and>
          exactOffset p s1 r \<le> off \<and> off < exactOffset p s1 (r + 1) \<and> extends p s1 s'"
  proof (rule binarySearch_correct[OF wf1 pos1 off0 low0])
    show "?low \<le> ?high + 1" using loop(2,3) by simp
    show "0 < ?low \<longrightarrow> exactOffset p s1 (?low - 1) < off"
      using exactOffset_mono[OF pos, of "?low - 1" ?low] loop(4) E1 by auto
    show "off < exactOffset p s1 (?high + 1)"
    proof (cases "i < itemCount p")
      case True
      then have "?high = i" by simp
      then show ?thesis
        using exactOffset_mono[OF pos loop(2), of "i + 1"] loop(5) True E1 by simp
    next
      case False
      then have "?high + 1 = itemCount p" by simp
      then show ?thesis using hi E1 by simp
    qed
  qed
  then obtain r s' where res:
    "findNearestItemBinarySearch p s1 ?high ?low off = (Inr r, s')"
    "0 \<le> r" "r \<le> ?high" "exactOffset p s r \<le> off" "off < exactOffset p s (r + 1)"
    "extends p s1 s'"
    using E1 by auto
  have "findNearestItemExponentialSearch p s index off = Some (Inr r, s')"
    using loop(1) res(1) by (simp add: findNearestItemExponentialSearch_def)
  then show ?thesis using res extends_trans[OF loop(6) res(6)] by auto
qed

lemma findNearestItem_correct:
  assumes wf: "wellFormed s" and pos: "positiveSizes p s"
      and lmi: "0 \<le> lastMeasuredIndex s \<or> off = 0" "lastMeasuredIndex s \<le> itemCount p - 1"
      and cnt: "1 \<le> itemCount p"
      and off: "0 \<le> off" "off < exactOffset p s (itemCount p)"
  shows "\<exists>r s'. findNearestItem p s off = Some (Inr r, s') \<and>
            0 \<le> r \<and> r \<le> itemCount p - 1 \<and>
            exactOffset p s r \<le> off \<and> off < exactOffset p s (r + 1) \<and> extends p s s'"
proof -
  let ?l = "lastMeasuredIndex s"
  define lmo where "lmo = (if ?l > 0 then exactOffset p s ?l else 0)"
  have l1: "- 1 \<le> ?l" using wf by (simp add: wellFormed_def)
  have lmo: "(if ?l > 0 then property offset (itemMetadataMap s ?l) else Inr 0) = Inr lmo"
    using wf wellFormed_exact[of s p] by (simp add: lmo_def property_def)
  have lmo_eq: "0 \<le> ?l \<Longrightarrow> lmo = exactOffset p s ?l"
    by (cases "?l = 0") (auto simp: lmo_def)
  show ?thesis
  proof (cases "lmo \<ge> off")
    case True
    have fn: "findNearestItem p s off = Some (findNearestItemBinarySearch p s ?l 0 off)"
      using lmo True by (simp add: findNearestItem_def Let_def)
    have "\<exists>r s'. findNearestItemBinarySearch p s ?l 0 off = (Inr r, s') \<and>
          0 \<le> r \<and> r \<le> ?l \<and>
          exactOffset p s r \<le> off \<and> off < exactOffset p s (r + 1) \<and> extends p s s'"
      if "0 \<le> ?l"
    proof (rule binarySearch_correct[OF wf pos off(1)])
      show "(0::int) \<le> 0" by simp
      show "0 \<le> ?l + 1" using l1 by simp
      show "0 < (0::int) \<longrightarrow> exactOffset p s (0 - 1) < off" by simp
      show "off < exactOffset p s (?l + 1)"
        using exactOffset_mono[OF pos that, of "?l + 1"] lmo_eq[OF that] True by simp
    qed
    moreover have "findNearestItemBinarySearch p s ?l 0 off = (Inr 0, s)
        \<and> exactOffset p s 0 \<le> off \<and> off < exactOffset p s (0 + 1)"
      if "\<not> 0 \<le> ?l"
    proof -
      from that l1 have "?l = - 1" by simp
      then have "findNearestItemBinarySearch p s ?l 0 off = (Inr 0, s)"
        by (subst findNearestItemBinarySearch.simps) simp
      moreover have "off = 0" using that lmi by simp
      ultimately show ?thesis using exactOffset_mono[OF pos, of 0 1] by simp
    qed
    ultimately show ?thesis using fn lmi cnt wf
      by (cases "0 \<le> ?l") (fastforce simp: extends_refl)+
  next
    case False
    then have lt: "lmo < off" by simp
    have l0: "0 \<le> ?l" using lmi lt off by (auto simp: lmo_def split: if_splits)
    have fn: "findNearestItem p s off = findNearestItemExponentialSearch p s ?l off"
      using lmo False by (simp add: findNearestItem_def Let_def)
    show ?thesis unfolding fn
      using exponentialSearch_correct[OF wf pos l0 lmi(2) _ off(2)] lt lmo_eq[OF l0] by simp
  qed
qed

section \<open>What every operation preserves\<close>

text \<open>The loop of the exponential search returns whenever its interval is positive.\<close>

lemma exponentialLoop_total:
  "1 \<le> interval \<Longrightarrow> \<exists>r. exponentialLoop p s index interval off = Some r"
proof (induction "nat (itemCount p - index)" arbitrary: s index interval rule: less_induct)
  case less
  show ?case
  proof (cases "index < itemCount p")
    case False
    then show ?thesis by (subst exponentialLoop.simps) simp
  next
    case True
    obtain v s' where r: "getItemMetadata_property offset p index s = (v, s')"
      by (cases "getItemMetadata_property offset p index s")
    show ?thesis
    proof (cases v)
      case (Inl e)
      then show ?thesis using True r by (subst exponentialLoop.simps) simp
    next
      case (Inr c)
      show ?thesis
      proof (cases "c < off")
        case False
        then show ?thesis using True r Inr by (subst exponentialLoop.simps) simp
      next
        case lt: True
        have "nat (itemCount p - (index + interval)) < nat (itemCount p - index)"
          using True less.prems by simp
        moreover have "1 \<le> interval * 2" using less.prems by simp
        ultimately have "\<exists>r. exponentialLoop p s' (index + interval) (interval * 2) off = Some r"
          by (rule less.hyps)
        then show ?thesis using True r Inr lt by (subst exponentialLoop.simps) simp
      qed
    qed
  qed
qed

text \<open>
  A property of the state that \<^verbatim>\<open>getItemMetadata\<close> keeps is kept by the searches, the
  window calculator and the alignment planner, whether they return or throw.
\<close>

lemma snd_getItemMetadata_property:
  "snd (getItemMetadata_property field p index s) = snd (getItemMetadata p index s)"
  by (simp add: getItemMetadata_property_def split: prod.splits sum.splits)

lemma binarySearch_preserves:
  assumes pres: "\<And>i s. I s \<Longrightarrow> I (snd (getItemMetadata p i s))"
  shows "I s \<Longrightarrow> I (snd (findNearestItemBinarySearch p s high low off))"
proof (induction "nat (high + 1 - low)" arbitrary: s high low rule: less_induct)
  case less
  show ?case
  proof (cases "low \<le> high")
    case False
    then show ?thesis using less.prems by (subst findNearestItemBinarySearch.simps) simp
  next
    case True
    define middle where "middle = low + (high - low) div 2"
    define r where "r = getItemMetadata_property offset p middle s"
    have I': "I (snd r)" using pres[OF less.prems] by (simp add: r_def snd_getItemMetadata_property)
    have mid: "low \<le> middle" "middle \<le> high" using True by (auto simp: middle_def)
    have up: "I (snd (findNearestItemBinarySearch p (snd r) high (middle + 1) off))"
      using mid I' by (intro less.hyps) auto
    have down: "I (snd (findNearestItemBinarySearch p (snd r) (middle - 1) low off))"
      using mid I' by (intro less.hyps) auto
    show ?thesis using True I' up down
      by (subst findNearestItemBinarySearch.simps)
         (simp add: Let_def middle_def[symmetric] r_def[symmetric] split: sum.splits)
  qed
qed

lemma exponentialLoop_preserves:
  assumes pres: "\<And>i s. I s \<Longrightarrow> I (snd (getItemMetadata p i s))"
  shows "I s \<Longrightarrow> 1 \<le> interval \<Longrightarrow>
         \<exists>r s'. exponentialLoop p s index interval off = Some (r, s') \<and> I s'"
proof (induction "nat (itemCount p - index)" arbitrary: s index interval rule: less_induct)
  case less
  show ?case
  proof (cases "index < itemCount p")
    case False
    then show ?thesis using less.prems by (subst exponentialLoop.simps) simp
  next
    case True
    obtain v s' where r: "getItemMetadata_property offset p index s = (v, s')"
      by (cases "getItemMetadata_property offset p index s")
    have I': "I s'" using pres[OF less.prems(1), of index] r snd_getItemMetadata_property[of offset p index s]
      by simp
    show ?thesis
    proof (cases v)
      case (Inl e)
      then show ?thesis using True r I' by (subst exponentialLoop.simps) simp
    next
      case (Inr c)
      show ?thesis
      proof (cases "c < off")
        case False
        then show ?thesis using True r Inr I' by (subst exponentialLoop.simps) simp
      next
        case lt: True
        have "nat (itemCount p - (index + interval)) < nat (itemCount p - index)"
          using True less.prems by simp
        moreover have "1 \<le> interval * 2" using less.prems by simp
        ultimately have "\<exists>r s''. exponentialLoop p s' (index + interval) (interval * 2) off
            = Some (r, s'') \<and> I s''"
          using I' by (intro less.hyps)
        then show ?thesis using True r Inr lt by (subst exponentialLoop.simps) simp
      qed
    qed
  qed
qed

lemma findNearestItem_preserves:
  assumes pres: "\<And>i s. I s \<Longrightarrow> I (snd (getItemMetadata p i s))" and I: "I s"
  shows "\<exists>r s'. findNearestItem p s off = Some (r, s') \<and> I s'"
proof -
  let ?l = "lastMeasuredIndex s"
  obtain r s1 where loop: "exponentialLoop p s ?l 1 off = Some (r, s1)" "I s1"
    using exponentialLoop_preserves[of I p s 1 ?l off, OF pres I] by auto
  have bs: "I (snd (findNearestItemBinarySearch p s' high low off))" if "I s'" for s' high low
    using binarySearch_preserves[of I p, OF pres that] .
  have es: "\<exists>r s'. findNearestItemExponentialSearch p s ?l off = Some (r, s') \<and> I s'"
  proof (cases r)
    case (Inl e)
    then show ?thesis using loop by (simp add: findNearestItemExponentialSearch_def)
  next
    case (Inr i)
    then show ?thesis using loop bs[OF loop(2), of "min i (itemCount p - 1)" "i div 2"]
      by (cases "findNearestItemBinarySearch p s1 (min i (itemCount p - 1)) (i div 2) off")
         (simp add: findNearestItemExponentialSearch_def)
  qed
  show ?thesis
    using es bs[OF I, of ?l 0] I
    by (cases "findNearestItemBinarySearch p s ?l 0 off")
       (auto simp: findNearestItem_def Let_def split: sum.splits)
qed

lemma stopIndexLoop_preserves:
  assumes pres: "\<And>i s. I s \<Longrightarrow> I (snd (getItemMetadata p i s))"
  shows "I s \<Longrightarrow> I (snd (stopIndexLoop p maxOffset stopIndex off s))"
proof (induction "nat (itemCount p - stopIndex)" arbitrary: s stopIndex off rule: less_induct)
  case less
  show ?case
  proof (cases "stopIndex < itemCount p - 1 \<and> off < maxOffset")
    case False
    then show ?thesis using less.prems by (subst stopIndexLoop.simps) auto
  next
    case True
    define r where "r = getItemMetadata_property size' p (stopIndex + 1) s"
    have I': "I (snd r)" using pres[OF less.prems] by (simp add: r_def snd_getItemMetadata_property)
    have "I (snd (stopIndexLoop p maxOffset (stopIndex + 1) off' (snd r)))" for off'
      using True I' by (intro less.hyps) auto
    then show ?thesis using True I'
      by (subst stopIndexLoop.simps) (simp add: Let_def r_def[symmetric] split: sum.splits)
  qed
qed

lemma getStopIndexForStartIndex_preserves:
  assumes pres: "\<And>i s. I s \<Longrightarrow> I (snd (getItemMetadata p i s))" and I: "I s"
  shows "I (snd (getStopIndexForStartIndex p startIndex scrollOffset s))"
proof -
  obtain v s1 where g: "getItemMetadata p startIndex s = (v, s1)"
    by (cases "getItemMetadata p startIndex s")
  have I1: "I s1" using pres[OF I, of startIndex] g by simp
  show ?thesis using g I1 stopIndexLoop_preserves[of I p, OF pres I1]
    by (simp add: getStopIndexForStartIndex_def Let_def split: sum.splits option.splits)
qed

lemma getOffsetForIndexAndAlignment_preserves:
  assumes pres: "\<And>i s. I s \<Longrightarrow> I (snd (getItemMetadata p i s))" and I: "I s"
  shows "I (snd (getOffsetForIndexAndAlignment p index align scrollOffset s))"
proof -
  obtain v s1 where g: "getItemMetadata p index s = (v, s1)"
    by (cases "getItemMetadata p index s")
  have I1: "I s1" using pres[OF I, of index] g by simp
  show ?thesis using g I1
    by (simp add: getOffsetForIndexAndAlignment_def Let_def
             split: sum.splits option.splits ScrollToAlign.splits)
qed

section \<open>The initial state and the example lists\<close>

lemma wellFormed_initInstanceProps: "wellFormed (initInstanceProps p)"
  by (simp add: wellFormed_def initInstanceProps_def)

lemma nothingStale_initInstanceProps: "nothingStale (initInstanceProps p)"
  by (simp add: nothingStale_def initInstanceProps_def)

lemma lastMeasuredIndex_initInstanceProps [simp]: "lastMeasuredIndex (initInstanceProps p) = - 1"
  by (simp add: initInstanceProps_def)

lemma itemMetadataMap_initInstanceProps [simp]: "itemMetadataMap (initInstanceProps p) = Map.empty"
  by (simp add: initInstanceProps_def)

lemma positiveSizes_storedPositive: "positiveSizes p s \<Longrightarrow> storedPositive s"
  by (auto simp: positiveSizes_def storedPositive_def exactSize_def)

lemma positiveSizes_initInstanceProps:
  "(\<And>j. 0 < itemSize p j) \<Longrightarrow> positiveSizes p (initInstanceProps q)"
  by (simp add: positiveSizes_def exactSize_def)

lemma positiveSizes_measured:
  "wellFormed s \<Longrightarrow> positiveSizes p s \<Longrightarrow> positiveSizes p (measured p i s)"
  using extends_measured extends_positiveSizes by blast

lemma measured_cached: "index \<le> lastMeasuredIndex s \<Longrightarrow> measured p index s = s"
  by (simp add: measured_def getItemMetadata_cached)

lemma viewportSize_listProps: "viewportSize (listProps count getter estimate) = 100"
  by (simp add: viewportSize_def listProps_def)

lemma itemCount_listProps: "itemCount (listProps count getter estimate) = count"
  by (simp add: listProps_def)

lemma itemSize_listProps: "itemSize (listProps count getter estimate) = getter"
  by (simp add: listProps_def)

section \<open>Invalidation\<close>

text \<open>
  C7. For every index \<open>k\<close> and every state, \<^verbatim>\<open>resetAfterIndex(k)\<close> sets the watermark
  \<open>lastMeasuredIndex\<close> to the minimum of its previous value and \<open>k - 1\<close>, so it never
  raises it, and it leaves the metadata map (and the estimated item size) as they were:
  no entry is deleted or changed.
\<close>

theorem resetAfterIndex_lowers_watermark_only:
  "lastMeasuredIndex (resetAfterIndex k s) = min (lastMeasuredIndex s) (k - 1) \<and>
   lastMeasuredIndex (resetAfterIndex k s) \<le> lastMeasuredIndex s \<and>
   itemMetadataMap (resetAfterIndex k s) = itemMetadataMap s \<and>
   estimatedItemSize (resetAfterIndex k s) = estimatedItemSize s"
  by (simp add: resetAfterIndex_def)

text \<open>
  The earlier revision of \<^verbatim>\<open>resetAfterIndex\<close> did not take the minimum: on a list
  measured up to item \<open>2\<close>, resetting after index \<open>10\<close> raised the watermark to \<open>9\<close>.
\<close>

lemma resetAfterIndex_cell_raises_watermark:
  "lastMeasuredIndex (resetAfterIndex_cell 10 (s\<lparr>lastMeasuredIndex := 2\<rparr>)) = 9"
  by (simp add: resetAfterIndex_cell_def)

section \<open>Cached measurements\<close>

text \<open>
  C9. For every index at or below the watermark, \<^verbatim>\<open>getItemMetadata\<close> returns the stored
  entry and leaves the state (map and watermark) as it was, and its result does not depend
  on the props, so it does not consult \<^verbatim>\<open>itemSize\<close>: two runs that differ only in
  the size function agree on measured indices. A second call for the same index, with any
  size function, returns what the first call returned and the state the first call left.
\<close>

theorem getItemMetadata_measured_is_pure:
  "(index \<le> lastMeasuredIndex s \<longrightarrow>
      getItemMetadata p index s = (Inr (itemMetadataMap s index), s) \<and>
      getItemMetadata p' index s = getItemMetadata p index s) \<and>
   getItemMetadata p' index (snd (getItemMetadata p index s)) = getItemMetadata p index s"
  by (simp add: getItemMetadata_def Let_def split: option.splits)

theorem getItemMetadata_measured_is_pure_witness:
  "(1::int) \<le> lastMeasuredIndex (measured (listProps 20 (\<lambda>i. 25 + i) 25) 2
                 (initInstanceProps (listProps 20 (\<lambda>i. 25 + i) 25))) \<and>
   getItemMetadata (listProps 20 (\<lambda>i. 25 + i) 25) 1
     (measured (listProps 20 (\<lambda>i. 25 + i) 25) 2
        (initInstanceProps (listProps 20 (\<lambda>i. 25 + i) 25))) =
   (Inr (Some \<lparr>offset = 25, size' = 26\<rparr>),
    measured (listProps 20 (\<lambda>i. 25 + i) 25) 2
      (initInstanceProps (listProps 20 (\<lambda>i. 25 + i) 25))) \<and>
   getItemMetadata (listProps 20 (\<lambda>i. 50) 25) 1
     (measured (listProps 20 (\<lambda>i. 25 + i) 25) 2
        (initInstanceProps (listProps 20 (\<lambda>i. 25 + i) 25))) =
   (Inr (Some \<lparr>offset = 25, size' = 26\<rparr>),
    measured (listProps 20 (\<lambda>i. 25 + i) 25) 2
      (initInstanceProps (listProps 20 (\<lambda>i. 25 + i) 25)))"
proof -
  let ?p = "listProps 20 (\<lambda>i. 25 + i) 25"
  let ?s = "measured ?p 2 (initInstanceProps ?p)"
  have wf: "wellFormed (initInstanceProps ?p)" by (rule wellFormed_initInstanceProps)
  have l: "(1::int) \<le> lastMeasuredIndex ?s"
    by (simp add: measured_lastMeasuredIndex[OF wf])
  have e: "itemMetadataMap ?s 1 = Some \<lparr>offset = 25, size' = 26\<rparr>"
    by (simp add: measured_def getItemMetadata_def measureLoop.simps listProps_def)
  from getItemMetadata_measured_is_pure[of 1 ?s ?p "listProps 20 (\<lambda>i. 50) 25"] l e
  show ?thesis by simp
qed

section \<open>Rounding\<close>

lemma half_split:
  "(d' :: rat) = 2 * q' + r' - 1 \<Longrightarrow> a' + d' / 2 + 1 / 2 = (a' + q') + r' / 2"
  by (simp add: field_simps)

lemma Math_round_half: "Math_round (of_int a + of_int d / 2) = a + (d + 1) div 2"
proof -
  define q r where "q = (d + 1) div 2" and "r = (d + 1) mod 2"
  have d: "d = 2 * q + r - 1" and r: "0 \<le> r" "r < 2"
    by (simp_all add: q_def r_def)
  have "(of_int d :: rat) = 2 * of_int q + of_int r - 1" unfolding d by simp
  from half_split[OF this]
  have x: "(of_int a :: rat) + of_int d / 2 + 1 / 2 = of_int (a + q) + of_int r / 2"
    by simp
  have "\<lfloor>(of_int (a + q) :: rat) + of_int r / 2\<rfloor> = a + q"
  proof (rule floor_unique)
    show "(of_int (a + q) :: rat) \<le> of_int (a + q) + of_int r / 2" using r by simp
    have "(of_int r :: rat) < of_int 2" using r by (simp only: of_int_less_iff)
    then show "(of_int (a + q) :: rat) + of_int r / 2 < of_int (a + q) + 1" by simp
  qed
  then show ?thesis unfolding Math_round_def x by (simp add: q_def)
qed

section \<open>The estimate of the total size\<close>

lemma getEstimatedTotalSize_wellFormed:
  "wellFormed s \<Longrightarrow>
   getEstimatedTotalSize p s =
     Inr (exactOffset p s (lastMeasuredIndex s + 1)
          + (itemCount p - lastMeasuredIndex s - 1) * estimatedItemSize s)"
  using measuredTotal[of s p] by (simp add: getEstimatedTotalSize_def Let_def)

text \<open>
  C3. In a well-formed state \<^verbatim>\<open>getEstimatedTotalSize\<close> returns the measured total
  plus the number of unmeasured items times the estimated item size, where the measured
  total is the offset plus the size of the last measured item (\<open>0\<close> when the watermark is
  \<open>-1\<close>) and the number of unmeasured items is \<open>itemCount - lastMeasuredIndex - 1\<close>.
  With 100 items, an estimated item size of 50 and the first five items measured at size 25
  it returns 4875.
\<close>

theorem getEstimatedTotalSize_formula:
  "(wellFormed s \<longrightarrow> getEstimatedTotalSize p s = Inr (spec_estimatedTotalSize p s)) \<and>
   getEstimatedTotalSize (listProps 100 (\<lambda>i. 25) 50)
     (snd (getItemMetadata (listProps 100 (\<lambda>i. 25) 50) 4
             (initInstanceProps (listProps 100 (\<lambda>i. 25) 50)))) = Inr 4875"
proof
  show "wellFormed s \<longrightarrow> getEstimatedTotalSize p s = Inr (spec_estimatedTotalSize p s)"
  proof
    assume wf: "wellFormed s"
    show "getEstimatedTotalSize p s = Inr (spec_estimatedTotalSize p s)"
    proof (cases "0 \<le> lastMeasuredIndex s")
      case True
      then have "lastMeasuredIndex s \<in> {0..lastMeasuredIndex s}" by simp
      then obtain md where "itemMetadataMap s (lastMeasuredIndex s) = Some md"
        using wf unfolding wellFormed_def by blast
      then show ?thesis using True
        by (simp add: getEstimatedTotalSize_def spec_estimatedTotalSize_def Let_def)
    next
      case False
      with wf have "lastMeasuredIndex s = - 1" by (simp add: wellFormed_def)
      then show ?thesis
        by (simp add: getEstimatedTotalSize_def spec_estimatedTotalSize_def Let_def)
    qed
  qed
next
  show "getEstimatedTotalSize (listProps 100 (\<lambda>i. 25) 50)
     (snd (getItemMetadata (listProps 100 (\<lambda>i. 25) 50) 4
             (initInstanceProps (listProps 100 (\<lambda>i. 25) 50)))) = Inr 4875"
    by (simp add: getEstimatedTotalSize_def getItemMetadata_def measureLoop.simps
          initInstanceProps_def listProps_def Let_def)
qed

theorem getEstimatedTotalSize_formula_witness:
  "wellFormed (measured (listProps 100 (\<lambda>i. 25) 50) 4
                 (initInstanceProps (listProps 100 (\<lambda>i. 25) 50))) \<and>
   getEstimatedTotalSize (listProps 100 (\<lambda>i. 25) 50)
     (measured (listProps 100 (\<lambda>i. 25) 50) 4
        (initInstanceProps (listProps 100 (\<lambda>i. 25) 50))) =
   Inr (spec_estimatedTotalSize (listProps 100 (\<lambda>i. 25) 50)
     (measured (listProps 100 (\<lambda>i. 25) 50) 4
        (initInstanceProps (listProps 100 (\<lambda>i. 25) 50)))) \<and>
   spec_estimatedTotalSize (listProps 100 (\<lambda>i. 25) 50)
     (measured (listProps 100 (\<lambda>i. 25) 50) 4
        (initInstanceProps (listProps 100 (\<lambda>i. 25) 50))) = 5 * 25 + 95 * 50"
proof -
  let ?p = "listProps 100 (\<lambda>i. 25) 50"
  let ?s = "measured ?p 4 (initInstanceProps ?p)"
  have wf: "wellFormed ?s"
    by (rule measured_wellFormed) (rule wellFormed_initInstanceProps)
  have v: "spec_estimatedTotalSize ?p ?s = 5 * 25 + 95 * 50"
    by (simp add: spec_estimatedTotalSize_def measured_def getItemMetadata_def
          measureLoop.simps initInstanceProps_def listProps_def Let_def)
  from getEstimatedTotalSize_formula[of ?s ?p] wf v show ?thesis by simp
qed

section \<open>Alignment\<close>

lemma getOffsetForIndexAndAlignment_wellFormed:
  assumes wf: "wellFormed s" and i: "0 \<le> index"
  shows "\<exists>md s1 total.
     getItemMetadata p index s = (Inr (Some md), s1) \<and>
     getEstimatedTotalSize p s1 = Inr total \<and>
     (\<forall>align scrollOffset.
        getOffsetForIndexAndAlignment p index align scrollOffset s =
          (let maxOffset = min (total - viewportSize p) (offset md);
               minOffset = max 0 (offset md - viewportSize p + size' md)
           in (case align of
                 Start \<Rightarrow> (Inr maxOffset, s1)
               | End \<Rightarrow> (Inr minOffset, s1)
               | Center \<Rightarrow>
                   (Inr (Math_round (of_int minOffset + of_int (maxOffset - minOffset) / 2)), s1)
               | Auto \<Rightarrow>
                   if scrollOffset \<ge> minOffset \<and> scrollOffset \<le> maxOffset
                   then (Inr scrollOffset, s1)
                   else if scrollOffset - minOffset < maxOffset - scrollOffset
                   then (Inr minOffset, s1)
                   else (Inr maxOffset, s1))))"
proof -
  let ?md = "\<lparr>offset = exactOffset p s index, size' = exactSize p s index\<rparr>"
  let ?s1 = "measured p index s"
  have g: "getItemMetadata p index s = (Inr (Some ?md), ?s1)"
    using wf i by (rule getItemMetadata_wellFormed)
  have wf1: "wellFormed ?s1" using wf by (rule measured_wellFormed)
  obtain total where t: "getEstimatedTotalSize p ?s1 = Inr total"
    using getEstimatedTotalSize_wellFormed[OF wf1] by blast
  have "getOffsetForIndexAndAlignment p index align scrollOffset s =
          (let maxOffset = min (total - viewportSize p) (offset ?md);
               minOffset = max 0 (offset ?md - viewportSize p + size' ?md)
           in (case align of
                 Start \<Rightarrow> (Inr maxOffset, ?s1)
               | End \<Rightarrow> (Inr minOffset, ?s1)
               | Center \<Rightarrow>
                   (Inr (Math_round (of_int minOffset + of_int (maxOffset - minOffset) / 2)), ?s1)
               | Auto \<Rightarrow>
                   if scrollOffset \<ge> minOffset \<and> scrollOffset \<le> maxOffset
                   then (Inr scrollOffset, ?s1)
                   else if scrollOffset - minOffset < maxOffset - scrollOffset
                   then (Inr minOffset, ?s1)
                   else (Inr maxOffset, ?s1)))" for align scrollOffset
    using g t by (simp add: getOffsetForIndexAndAlignment_def Let_def)
  with g t show ?thesis by blast
qed

text \<open>
  C4. In a well-formed state and for every index that is not negative,
  \<^verbatim>\<open>getOffsetForIndexAndAlignment\<close> measures the item, takes the estimate of the total
  size in the state after that measurement, and returns \<open>maxOffset\<close> for \<open>start\<close>,
  \<open>minOffset\<close> for \<open>end\<close> and \<open>round (minOffset + (maxOffset - minOffset) / 2)\<close> for
  \<open>center\<close>, where \<open>maxOffset\<close> is the minimum of the total minus the viewport size and
  the item's offset, and \<open>minOffset\<close> is the maximum of \<open>0\<close> and the item's offset
  minus the viewport size plus the item's size.
\<close>

theorem getOffsetForIndexAndAlignment_start_end_center:
  "wellFormed s \<Longrightarrow> 0 \<le> index \<Longrightarrow>
   \<exists>md s1 total.
     getItemMetadata p index s = (Inr (Some md), s1) \<and>
     getEstimatedTotalSize p s1 = Inr total \<and>
     (let maxOffset = min (total - viewportSize p) (offset md);
          minOffset = max 0 (offset md - viewportSize p + size' md)
      in getOffsetForIndexAndAlignment p index Start scrollOffset s = (Inr maxOffset, s1) \<and>
         getOffsetForIndexAndAlignment p index End scrollOffset s = (Inr minOffset, s1) \<and>
         getOffsetForIndexAndAlignment p index Center scrollOffset s =
           (Inr (Math_round (of_int minOffset + of_int (maxOffset - minOffset) / 2)), s1))"
proof -
  assume "wellFormed s" "0 \<le> index"
  from getOffsetForIndexAndAlignment_wellFormed[OF this, of p]
  obtain md s1 total where
    "getItemMetadata p index s = (Inr (Some md), s1)"
    "getEstimatedTotalSize p s1 = Inr total"
    "\<And>align scrollOffset.
        getOffsetForIndexAndAlignment p index align scrollOffset s =
          (let maxOffset = min (total - viewportSize p) (offset md);
               minOffset = max 0 (offset md - viewportSize p + size' md)
           in (case align of
                 Start \<Rightarrow> (Inr maxOffset, s1)
               | End \<Rightarrow> (Inr minOffset, s1)
               | Center \<Rightarrow>
                   (Inr (Math_round (of_int minOffset + of_int (maxOffset - minOffset) / 2)), s1)
               | Auto \<Rightarrow>
                   if scrollOffset \<ge> minOffset \<and> scrollOffset \<le> maxOffset
                   then (Inr scrollOffset, s1)
                   else if scrollOffset - minOffset < maxOffset - scrollOffset
                   then (Inr minOffset, s1)
                   else (Inr maxOffset, s1)))"
    by blast
  then show ?thesis by (simp add: Let_def)
qed

lemma scrollToItem_10_measured:
  "getItemMetadata (listProps 20 (\<lambda>i. 25 + i) 25) 10
     (initInstanceProps (listProps 20 (\<lambda>i. 25 + i) 25)) =
   (Inr (Some \<lparr>offset = 295, size' = 35\<rparr>),
    measured (listProps 20 (\<lambda>i. 25 + i) 25) 10
      (initInstanceProps (listProps 20 (\<lambda>i. 25 + i) 25)))"
  by (simp add: measured_def getItemMetadata_def measureLoop.simps initInstanceProps_def
        listProps_def Let_def)

lemma scrollToItem_10_total:
  "getEstimatedTotalSize (listProps 20 (\<lambda>i. 25 + i) 25)
     (measured (listProps 20 (\<lambda>i. 25 + i) 25) 10
        (initInstanceProps (listProps 20 (\<lambda>i. 25 + i) 25))) = Inr 555"
  by (simp add: getEstimatedTotalSize_def measured_def getItemMetadata_def measureLoop.simps
        initInstanceProps_def listProps_def Let_def)

theorem getOffsetForIndexAndAlignment_start_end_center_witness:
  "wellFormed (initInstanceProps (listProps 20 (\<lambda>i. 25 + i) 25)) \<and> (0::int) \<le> 10 \<and>
   fst (getOffsetForIndexAndAlignment (listProps 20 (\<lambda>i. 25 + i) 25) 10 Start 0
          (initInstanceProps (listProps 20 (\<lambda>i. 25 + i) 25))) = Inr 295 \<and>
   fst (getOffsetForIndexAndAlignment (listProps 20 (\<lambda>i. 25 + i) 25) 10 End 0
          (initInstanceProps (listProps 20 (\<lambda>i. 25 + i) 25))) = Inr 230 \<and>
   fst (getOffsetForIndexAndAlignment (listProps 20 (\<lambda>i. 25 + i) 25) 10 Center 0
          (initInstanceProps (listProps 20 (\<lambda>i. 25 + i) 25))) = Inr 263"
proof -
  let ?p = "listProps 20 (\<lambda>i. 25 + i) 25"
  have wf: "wellFormed (initInstanceProps ?p)" by (rule wellFormed_initInstanceProps)
  have vs: "viewportSize ?p = 100" by (simp add: viewportSize_def listProps_def)
  from getOffsetForIndexAndAlignment_start_end_center[OF wf, of 10 ?p 0]
  show ?thesis
    using wf by (simp add: scrollToItem_10_measured scrollToItem_10_total vs Math_round_def)
qed

text \<open>The \<open>auto\<close> policy on three integers.\<close>

lemma autoAlign_closer:
  fixes lo hi c :: int
  defines "r \<equiv> (if lo \<le> c \<and> c \<le> hi then c else if c - lo < hi - c then lo else hi)"
  shows "(lo \<le> c \<and> c \<le> hi \<longrightarrow> r = c) \<and>
         (lo \<le> hi \<and> \<not> (lo \<le> c \<and> c \<le> hi) \<longrightarrow>
            (r = lo \<or> r = hi) \<and> \<bar>c - r\<bar> \<le> \<bar>c - lo\<bar> \<and> \<bar>c - r\<bar> \<le> \<bar>c - hi\<bar> \<and>
            (\<bar>c - lo\<bar> = \<bar>c - hi\<bar> \<longrightarrow> r = lo))"
  unfolding r_def by auto

text \<open>
  When \<open>maxOffset < minOffset\<close> no scroll offset lies within \<open>[minOffset, maxOffset]\<close>,
  and the comparison of the signed differences picks the bound that is farther from the
  current scroll offset, whatever that offset is; at equal distance it picks \<open>maxOffset\<close>.
\<close>

lemma autoAlign_oversized_farther:
  fixes lo hi c :: int
  defines "r \<equiv> (if lo \<le> c \<and> c \<le> hi then c else if c - lo < hi - c then lo else hi)"
  assumes "hi < lo"
  shows "(r = lo \<or> r = hi) \<and> \<bar>c - lo\<bar> \<le> \<bar>c - r\<bar> \<and> \<bar>c - hi\<bar> \<le> \<bar>c - r\<bar> \<and>
         (\<bar>c - lo\<bar> = \<bar>c - hi\<bar> \<longrightarrow> r = hi)"
  using assms(2) unfolding r_def by auto

text \<open>
  For \<open>auto\<close>, in a well-formed state and for every index that is not negative, the
  result is the current scroll offset when it lies within \<open>[minOffset, maxOffset]\<close>;
  otherwise it is \<open>minOffset\<close> when
  \<open>scrollOffset - minOffset < maxOffset - scrollOffset\<close> and \<open>maxOffset\<close> when not.
  When \<open>minOffset \<le> maxOffset\<close> that is the bound nearer to the current scroll offset.
\<close>

lemma getOffsetForIndexAndAlignment_auto:
  "wellFormed s \<Longrightarrow> 0 \<le> index \<Longrightarrow>
   \<exists>md s1 total r.
     getItemMetadata p index s = (Inr (Some md), s1) \<and>
     getEstimatedTotalSize p s1 = Inr total \<and>
     getOffsetForIndexAndAlignment p index Auto scrollOffset s = (Inr r, s1) \<and>
     (let maxOffset = min (total - viewportSize p) (offset md);
          minOffset = max 0 (offset md - viewportSize p + size' md)
      in r = (if minOffset \<le> scrollOffset \<and> scrollOffset \<le> maxOffset then scrollOffset
              else if scrollOffset - minOffset < maxOffset - scrollOffset then minOffset
              else maxOffset) \<and>
         (minOffset \<le> scrollOffset \<and> scrollOffset \<le> maxOffset \<longrightarrow> r = scrollOffset) \<and>
         (minOffset \<le> maxOffset \<and> \<not> (minOffset \<le> scrollOffset \<and> scrollOffset \<le> maxOffset) \<longrightarrow>
            (r = minOffset \<or> r = maxOffset) \<and>
            \<bar>scrollOffset - r\<bar> \<le> \<bar>scrollOffset - minOffset\<bar> \<and>
            \<bar>scrollOffset - r\<bar> \<le> \<bar>scrollOffset - maxOffset\<bar> \<and>
            (\<bar>scrollOffset - minOffset\<bar> = \<bar>scrollOffset - maxOffset\<bar> \<longrightarrow> r = minOffset)))"
proof -
  assume "wellFormed s" "0 \<le> index"
  from getOffsetForIndexAndAlignment_wellFormed[OF this, of p]
  obtain md s1 total where g:
    "getItemMetadata p index s = (Inr (Some md), s1)"
    "getEstimatedTotalSize p s1 = Inr total"
    and a: "\<And>align scrollOffset.
        getOffsetForIndexAndAlignment p index align scrollOffset s =
          (let maxOffset = min (total - viewportSize p) (offset md);
               minOffset = max 0 (offset md - viewportSize p + size' md)
           in (case align of
                 Start \<Rightarrow> (Inr maxOffset, s1)
               | End \<Rightarrow> (Inr minOffset, s1)
               | Center \<Rightarrow>
                   (Inr (Math_round (of_int minOffset + of_int (maxOffset - minOffset) / 2)), s1)
               | Auto \<Rightarrow>
                   if scrollOffset \<ge> minOffset \<and> scrollOffset \<le> maxOffset
                   then (Inr scrollOffset, s1)
                   else if scrollOffset - minOffset < maxOffset - scrollOffset
                   then (Inr minOffset, s1)
                   else (Inr maxOffset, s1)))"
    by blast
  let ?maxOffset = "min (total - viewportSize p) (offset md)"
  let ?minOffset = "max 0 (offset md - viewportSize p + size' md)"
  let ?r = "if ?minOffset \<le> scrollOffset \<and> scrollOffset \<le> ?maxOffset then scrollOffset
            else if scrollOffset - ?minOffset < ?maxOffset - scrollOffset then ?minOffset
            else ?maxOffset"
  have res: "getOffsetForIndexAndAlignment p index Auto scrollOffset s = (Inr ?r, s1)"
    by (simp add: a Let_def)
  show ?thesis
    unfolding Let_def
    by (intro exI[of _ md] exI[of _ s1] exI[of _ total] exI[of _ ?r] conjI g res refl)
       (rule autoAlign_closer[THEN conjunct1], rule autoAlign_closer[THEN conjunct2])
qed

lemma getOffsetForIndexAndAlignment_auto_example:
  "wellFormed (initInstanceProps (listProps 20 (\<lambda>i. 25 + i) 25)) \<and> (0::int) \<le> 10 \<and>
   fst (getOffsetForIndexAndAlignment (listProps 20 (\<lambda>i. 25 + i) 25) 10 Auto 0
          (initInstanceProps (listProps 20 (\<lambda>i. 25 + i) 25))) = Inr 230 \<and>
   fst (getOffsetForIndexAndAlignment (listProps 20 (\<lambda>i. 25 + i) 25) 10 Auto 250
          (initInstanceProps (listProps 20 (\<lambda>i. 25 + i) 25))) = Inr 250 \<and>
   fst (getOffsetForIndexAndAlignment (listProps 20 (\<lambda>i. 25 + i) 25) 10 Auto 400
          (initInstanceProps (listProps 20 (\<lambda>i. 25 + i) 25))) = Inr 295"
proof -
  let ?p = "listProps 20 (\<lambda>i. 25 + i) 25"
  have wf: "wellFormed (initInstanceProps ?p)" by (rule wellFormed_initInstanceProps)
  have vs: "viewportSize ?p = 100" by (simp add: viewportSize_def listProps_def)
  from getOffsetForIndexAndAlignment_auto[OF wf, of 10 ?p 0]
       getOffsetForIndexAndAlignment_auto[OF wf, of 10 ?p 250]
       getOffsetForIndexAndAlignment_auto[OF wf, of 10 ?p 400]
  show ?thesis
    using wf by (simp add: scrollToItem_10_measured scrollToItem_10_total vs)
qed

lemma largeItems_measured:
  "getItemMetadata (listProps 10 (\<lambda>i. 200) 50) 1
     (initInstanceProps (listProps 10 (\<lambda>i. 200) 50)) =
   (Inr (Some \<lparr>offset = 200, size' = 200\<rparr>),
    measured (listProps 10 (\<lambda>i. 200) 50) 1
      (initInstanceProps (listProps 10 (\<lambda>i. 200) 50)))"
  by (simp add: measured_def getItemMetadata_def measureLoop.simps initInstanceProps_def
        listProps_def Let_def)

lemma largeItems_total:
  "getEstimatedTotalSize (listProps 10 (\<lambda>i. 200) 50)
     (measured (listProps 10 (\<lambda>i. 200) 50) 1
        (initInstanceProps (listProps 10 (\<lambda>i. 200) 50))) = Inr 800"
  by (simp add: getEstimatedTotalSize_def measured_def getItemMetadata_def measureLoop.simps
        initInstanceProps_def listProps_def Let_def)

text \<open>
  C5 says that for \<open>auto\<close> the result is the current scroll offset when it lies within
  \<open>[minOffset, maxOffset]\<close> and otherwise whichever of \<open>minOffset\<close> and \<open>maxOffset\<close>
  is nearer to it, a tie going to \<open>minOffset\<close>, for every index and every scroll offset;
  the documentation of \<^verbatim>\<open>scrollToItem\<close> words the same policy as scrolling as little
  as possible. The code departs from it where an item is larger than the viewport, since
  then \<open>maxOffset < minOffset\<close>. Ten items of size 200 in a viewport of 100: for item 1,
  \<open>maxOffset = 200\<close> (the result for \<open>start\<close>) and \<open>minOffset = 300\<close> (the result for
  \<open>end\<close>). From scroll offset \<open>0\<close> the result for \<open>auto\<close> is \<open>300\<close>, the farther
  bound; from \<open>250\<close>, at equal distance from both, it is \<open>maxOffset = 200\<close>.
\<close>

theorem getOffsetForIndexAndAlignment_auto_oversized_item:
  "fst (getOffsetForIndexAndAlignment (listProps 10 (\<lambda>i. 200) 50) 1 Start 0
          (initInstanceProps (listProps 10 (\<lambda>i. 200) 50))) = Inr 200 \<and>
   fst (getOffsetForIndexAndAlignment (listProps 10 (\<lambda>i. 200) 50) 1 End 0
          (initInstanceProps (listProps 10 (\<lambda>i. 200) 50))) = Inr 300 \<and>
   fst (getOffsetForIndexAndAlignment (listProps 10 (\<lambda>i. 200) 50) 1 Auto 0
          (initInstanceProps (listProps 10 (\<lambda>i. 200) 50))) = Inr 300 \<and>
   \<bar>0 - 200\<bar> < \<bar>0 - (300::int)\<bar> \<and>
   fst (getOffsetForIndexAndAlignment (listProps 10 (\<lambda>i. 200) 50) 1 Auto 250
          (initInstanceProps (listProps 10 (\<lambda>i. 200) 50))) = Inr 200 \<and>
   \<bar>250 - 300\<bar> = \<bar>250 - (200::int)\<bar>"
  by (simp add: getOffsetForIndexAndAlignment_def largeItems_measured largeItems_total
        viewportSize_listProps Let_def)

section \<open>The stop index\<close>

lemma stopIndexLoop_correct:
  "wellFormed s \<Longrightarrow> 0 \<le> stopIndex \<Longrightarrow> startIndex \<le> stopIndex \<Longrightarrow>
   stopIndex \<le> itemCount p - 1 \<Longrightarrow> off = exactOffset p s (stopIndex + 1) \<Longrightarrow>
   (\<forall>j. startIndex \<le> j \<and> j < stopIndex \<longrightarrow> exactOffset p s (j + 1) < maxOffset) \<Longrightarrow>
   \<exists>r s'. stopIndexLoop p maxOffset stopIndex off s = (Inr r, s') \<and>
          stopIndex \<le> r \<and> r \<le> itemCount p - 1 \<and>
          (r = itemCount p - 1 \<or> maxOffset \<le> exactOffset p s (r + 1)) \<and>
          (\<forall>j. startIndex \<le> j \<and> j < r \<longrightarrow> exactOffset p s (j + 1) < maxOffset) \<and>
          extends p s s'"
proof (induction "nat (itemCount p - stopIndex)" arbitrary: s stopIndex off rule: less_induct)
  case less
  note wf = \<open>wellFormed s\<close>
  show ?case
  proof (cases "stopIndex < itemCount p - 1 \<and> off < maxOffset")
    case False
    then have "stopIndexLoop p maxOffset stopIndex off s = (Inr stopIndex, s)"
      by (subst stopIndexLoop.simps) auto
    moreover have "stopIndex = itemCount p - 1 \<or> maxOffset \<le> exactOffset p s (stopIndex + 1)"
      using False less.prems by auto
    ultimately show ?thesis using less.prems by (auto simp: extends_refl)
  next
    case True
    let ?n = "stopIndex + 1"
    let ?s' = "measured p ?n s"
    have n0: "0 \<le> ?n" using less.prems by simp
    have r: "getItemMetadata_property size' p ?n s = (Inr (exactSize p s ?n), ?s')"
      using wf n0 by (simp add: getItemMetadata_property_wellFormed)
    have ext: "extends p s ?s'" using wf by (rule extends_measured)
    have E': "exactOffset p ?s' = exactOffset p s" using ext by (rule extends_exactOffset)
    have step: "stopIndexLoop p maxOffset stopIndex off s =
                stopIndexLoop p maxOffset ?n (off + exactSize p s ?n) ?s'"
      using True r by (subst stopIndexLoop.simps) (simp add: Let_def)
    have "\<exists>r s''. stopIndexLoop p maxOffset ?n (off + exactSize p s ?n) ?s' = (Inr r, s'') \<and>
          ?n \<le> r \<and> r \<le> itemCount p - 1 \<and>
          (r = itemCount p - 1 \<or> maxOffset \<le> exactOffset p ?s' (r + 1)) \<and>
          (\<forall>j. startIndex \<le> j \<and> j < r \<longrightarrow> exactOffset p ?s' (j + 1) < maxOffset) \<and>
          extends p ?s' s''"
    proof (rule less.hyps)
      show "nat (itemCount p - ?n) < nat (itemCount p - stopIndex)" using True by simp
      show "wellFormed ?s'" using ext by (simp add: extends_def)
      show "0 \<le> ?n" by (rule n0)
      show "startIndex \<le> ?n" using less.prems by simp
      show "?n \<le> itemCount p - 1" using True by simp
      show "off + exactSize p s ?n = exactOffset p ?s' (?n + 1)"
        unfolding E' exactOffset_Suc[OF n0] using less.prems by simp
      show "\<forall>j. startIndex \<le> j \<and> j < ?n \<longrightarrow> exactOffset p ?s' (j + 1) < maxOffset"
      proof (intro allI impI)
        fix j assume j: "startIndex \<le> j \<and> j < ?n"
        show "exactOffset p ?s' (j + 1) < maxOffset"
        proof (cases "j = stopIndex")
          case True
          then show ?thesis using \<open>stopIndex < itemCount p - 1 \<and> off < maxOffset\<close> less.prems
            by (simp add: E')
        next
          case False
          with j have "startIndex \<le> j \<and> j < stopIndex" by simp
          then show ?thesis using less.prems by (simp add: E')
        qed
      qed
    qed
    then obtain r' s'' where res:
      "stopIndexLoop p maxOffset ?n (off + exactSize p s ?n) ?s' = (Inr r', s'')"
      "?n \<le> r'" "r' \<le> itemCount p - 1"
      "r' = itemCount p - 1 \<or> maxOffset \<le> exactOffset p s (r' + 1)"
      "\<forall>j. startIndex \<le> j \<and> j < r' \<longrightarrow> exactOffset p s (j + 1) < maxOffset"
      "extends p ?s' s''"
      unfolding E' by blast
    show ?thesis
      using step res(1-5) extends_trans[OF ext res(6)] by auto
  qed
qed

lemma getItemMetadata_end:
  "wellFormed s \<Longrightarrow> 0 \<le> j \<Longrightarrow>
   getItemMetadata p j s = (Inr (Some md), sj) \<Longrightarrow>
   offset md + size' md = exactOffset p s (j + 1) \<and> offset md = exactOffset p s j"
  by (auto simp: getItemMetadata_wellFormed exactOffset_Suc)

lemma getStopIndexForStartIndex_exact:
  assumes wf: "wellFormed s" and s0: "0 \<le> startIndex" and s1: "startIndex \<le> itemCount p - 1"
  shows "\<exists>r s'. getStopIndexForStartIndex p startIndex scrollOffset s = (Inr r, s') \<and>
     startIndex \<le> r \<and> r \<le> itemCount p - 1 \<and>
     (r = itemCount p - 1 \<or> scrollOffset + viewportSize p \<le> exactOffset p s (r + 1)) \<and>
     (\<forall>j. startIndex \<le> j \<and> j < r \<longrightarrow>
        exactOffset p s (j + 1) < scrollOffset + viewportSize p) \<and>
     extends p s s'"
proof -
  let ?s1 = "measured p startIndex s"
  let ?max = "scrollOffset + viewportSize p"
  have g: "getItemMetadata p startIndex s =
      (Inr (Some \<lparr>offset = exactOffset p s startIndex, size' = exactSize p s startIndex\<rparr>), ?s1)"
    using wf s0 by (rule getItemMetadata_wellFormed)
  have ext: "extends p s ?s1" using wf by (rule extends_measured)
  have E1: "exactOffset p ?s1 = exactOffset p s" using ext by (rule extends_exactOffset)
  have wf1: "wellFormed ?s1" using ext by (simp add: extends_def)
  have fn: "getStopIndexForStartIndex p startIndex scrollOffset s =
      stopIndexLoop p ?max startIndex (exactOffset p s startIndex + exactSize p s startIndex) ?s1"
    using g by (simp add: getStopIndexForStartIndex_def Let_def)
  have "\<exists>r s'. stopIndexLoop p ?max startIndex
                  (exactOffset p s startIndex + exactSize p s startIndex) ?s1 = (Inr r, s') \<and>
          startIndex \<le> r \<and> r \<le> itemCount p - 1 \<and>
          (r = itemCount p - 1 \<or> ?max \<le> exactOffset p ?s1 (r + 1)) \<and>
          (\<forall>j. startIndex \<le> j \<and> j < r \<longrightarrow> exactOffset p ?s1 (j + 1) < ?max) \<and>
          extends p ?s1 s'"
    using wf1 s0 s1 by (intro stopIndexLoop_correct) (simp_all add: E1 exactOffset_Suc)
  then obtain r s' where res:
    "getStopIndexForStartIndex p startIndex scrollOffset s = (Inr r, s')"
    "startIndex \<le> r" "r \<le> itemCount p - 1"
    "r = itemCount p - 1 \<or> ?max \<le> exactOffset p s (r + 1)"
    "\<forall>j. startIndex \<le> j \<and> j < r \<longrightarrow> exactOffset p s (j + 1) < ?max"
    "extends p ?s1 s'"
    unfolding E1 fn by blast
  show ?thesis using res(1-5) extends_trans[OF ext res(6)] by blast
qed

text \<open>
  C6. In a well-formed state and for every start index in \<open>[0, itemCount)\<close>,
  \<^verbatim>\<open>getStopIndexForStartIndex\<close> returns an index \<open>r\<close> between the start index and
  \<open>itemCount - 1\<close> such that every item from the start index up to \<open>r - 1\<close> ends
  (offset plus size) below \<open>scrollOffset + viewportSize\<close>, and either item \<open>r\<close> ends at
  or beyond \<open>scrollOffset + viewportSize\<close> or \<open>r = itemCount - 1\<close>: the smallest
  \<open>j\<close> from the start index on with \<open>offset(j) + size(j) \<ge> scrollOffset + viewportSize\<close>,
  or \<open>itemCount - 1\<close> if there is none. When the sizes are positive and the start item
  begins below \<open>scrollOffset + viewportSize\<close>, \<open>r\<close> is also the largest index up to
  \<open>itemCount - 1\<close> whose offset stays below \<open>scrollOffset + viewportSize\<close>. Offsets and
  sizes are those \<^verbatim>\<open>getItemMetadata\<close> returns.
\<close>

theorem getStopIndexForStartIndex_correct:
  "wellFormed s \<Longrightarrow> 0 \<le> startIndex \<Longrightarrow> startIndex \<le> itemCount p - 1 \<Longrightarrow>
   \<exists>r s'. getStopIndexForStartIndex p startIndex scrollOffset s = (Inr r, s') \<and>
     startIndex \<le> r \<and> r \<le> itemCount p - 1 \<and>
     (r = itemCount p - 1 \<or>
      (\<exists>md sr. getItemMetadata p r s = (Inr (Some md), sr) \<and>
                scrollOffset + viewportSize p \<le> offset md + size' md)) \<and>
     (\<forall>j. startIndex \<le> j \<and> j < r \<longrightarrow>
        (\<exists>md sj. getItemMetadata p j s = (Inr (Some md), sj) \<and>
                  offset md + size' md < scrollOffset + viewportSize p)) \<and>
     (positiveSizes p s \<and>
      (\<exists>md ss. getItemMetadata p startIndex s = (Inr (Some md), ss) \<and>
                offset md < scrollOffset + viewportSize p) \<longrightarrow>
        (\<exists>md sr. getItemMetadata p r s = (Inr (Some md), sr) \<and>
                  offset md < scrollOffset + viewportSize p) \<and>
        (\<forall>j md sj. r < j \<and> j \<le> itemCount p - 1 \<and>
                    getItemMetadata p j s = (Inr (Some md), sj) \<longrightarrow>
                    scrollOffset + viewportSize p \<le> offset md))"
proof -
  assume wf: "wellFormed s" and s0: "0 \<le> startIndex" and s1: "startIndex \<le> itemCount p - 1"
  let ?max = "scrollOffset + viewportSize p"
  from getStopIndexForStartIndex_exact[OF wf s0 s1, of scrollOffset]
  obtain r s' where res:
    "getStopIndexForStartIndex p startIndex scrollOffset s = (Inr r, s')"
    "startIndex \<le> r" "r \<le> itemCount p - 1"
    "r = itemCount p - 1 \<or> ?max \<le> exactOffset p s (r + 1)"
    "\<forall>j. startIndex \<le> j \<and> j < r \<longrightarrow> exactOffset p s (j + 1) < ?max"
    by blast
  have r0: "0 \<le> r" using s0 res(2) by simp
  have md: "\<exists>md sj. getItemMetadata p j s = (Inr (Some md), sj) \<and>
              offset md + size' md = exactOffset p s (j + 1) \<and>
              offset md = exactOffset p s j" if "0 \<le> j" for j
    using that getItemMetadata_wellFormed[OF wf, of j p] by (simp add: exactOffset_Suc)
  have hi: "r = itemCount p - 1 \<or>
      (\<exists>md sr. getItemMetadata p r s = (Inr (Some md), sr) \<and> ?max \<le> offset md + size' md)"
    using res(4) md[OF r0] by auto
  have lo: "\<forall>j. startIndex \<le> j \<and> j < r \<longrightarrow>
        (\<exists>md sj. getItemMetadata p j s = (Inr (Some md), sj) \<and> offset md + size' md < ?max)"
  proof (intro allI impI)
    fix j assume j: "startIndex \<le> j \<and> j < r"
    then have "exactOffset p s (j + 1) < ?max" using res(5) by blast
    moreover from j s0 have "0 \<le> j" by simp
    from md[OF this] obtain md sj where
      "getItemMetadata p j s = (Inr (Some md), sj)"
      "offset md + size' md = exactOffset p s (j + 1)" by blast
    ultimately show "\<exists>md sj. getItemMetadata p j s = (Inr (Some md), sj) \<and>
                       offset md + size' md < ?max" by auto
  qed
  have largest: "(\<exists>md sr. getItemMetadata p r s = (Inr (Some md), sr) \<and> offset md < ?max) \<and>
        (\<forall>j md sj. r < j \<and> j \<le> itemCount p - 1 \<and>
                    getItemMetadata p j s = (Inr (Some md), sj) \<longrightarrow> ?max \<le> offset md)"
    if pos: "positiveSizes p s"
      and st: "\<exists>md ss. getItemMetadata p startIndex s = (Inr (Some md), ss) \<and> offset md < ?max"
  proof
    have start: "exactOffset p s startIndex < ?max"
      using st getItemMetadata_end[OF wf s0] by auto
    have "exactOffset p s r < ?max"
    proof (cases "r = startIndex")
      case True
      then show ?thesis using start by simp
    next
      case False
      then have "startIndex \<le> r - 1 \<and> r - 1 < r" using res(2) by simp
      then have "exactOffset p s (r - 1 + 1) < ?max" using res(5) by blast
      then show ?thesis by simp
    qed
    then show "\<exists>md sr. getItemMetadata p r s = (Inr (Some md), sr) \<and> offset md < ?max"
      using md[OF r0] by auto
    show "\<forall>j md sj. r < j \<and> j \<le> itemCount p - 1 \<and>
                    getItemMetadata p j s = (Inr (Some md), sj) \<longrightarrow> ?max \<le> offset md"
    proof (intro allI impI)
      fix j md sj
      assume j: "r < j \<and> j \<le> itemCount p - 1 \<and> getItemMetadata p j s = (Inr (Some md), sj)"
      then have "r \<noteq> itemCount p - 1" by simp
      with res(4) have "?max \<le> exactOffset p s (r + 1)" by simp
      moreover have "exactOffset p s (r + 1) \<le> exactOffset p s j"
        using exactOffset_mono_le[OF pos, of "r + 1" j] r0 j by simp
      moreover have "offset md = exactOffset p s j"
        using getItemMetadata_end[OF wf, of j p md sj] r0 j by simp
      ultimately show "?max \<le> offset md" by simp
    qed
  qed
  show ?thesis using res(1-3) hi lo largest by blast
qed

lemma firstRender_stopIndex:
  "getStopIndexForStartIndex (listProps 100 (\<lambda>i. 25) 50) 0 0
     (initInstanceProps (listProps 100 (\<lambda>i. 25) 50)) =
   (Inr 3, measured (listProps 100 (\<lambda>i. 25) 50) 3
             (initInstanceProps (listProps 100 (\<lambda>i. 25) 50)))"
  by (simp add: getStopIndexForStartIndex_def stopIndexLoop.simps getItemMetadata_property_def
        property_def measured_def getItemMetadata_def measureLoop.simps initInstanceProps_def
        listProps_def viewportSize_def Let_def)

theorem getStopIndexForStartIndex_correct_witness:
  "wellFormed (initInstanceProps (listProps 100 (\<lambda>i. 25) 50)) \<and> (0::int) \<le> 0 \<and>
   0 \<le> itemCount (listProps 100 (\<lambda>i. 25) 50) - 1 \<and>
   positiveSizes (listProps 100 (\<lambda>i. 25) 50)
     (initInstanceProps (listProps 100 (\<lambda>i. 25) 50)) \<and>
   fst (getStopIndexForStartIndex (listProps 100 (\<lambda>i. 25) 50) 0 0
          (initInstanceProps (listProps 100 (\<lambda>i. 25) 50))) = Inr 3 \<and>
   (\<exists>md sj. getItemMetadata (listProps 100 (\<lambda>i. 25) 50) 2
               (initInstanceProps (listProps 100 (\<lambda>i. 25) 50)) = (Inr (Some md), sj) \<and>
             offset md + size' md < 0 + viewportSize (listProps 100 (\<lambda>i. 25) 50)) \<and>
   (\<exists>md sr. getItemMetadata (listProps 100 (\<lambda>i. 25) 50) 3
               (initInstanceProps (listProps 100 (\<lambda>i. 25) 50)) = (Inr (Some md), sr) \<and>
             offset md < 0 + viewportSize (listProps 100 (\<lambda>i. 25) 50) \<and>
             0 + viewportSize (listProps 100 (\<lambda>i. 25) 50) \<le> offset md + size' md)"
proof -
  let ?p = "listProps 100 (\<lambda>i. 25) 50"
  have wf: "wellFormed (initInstanceProps ?p)" by (rule wellFormed_initInstanceProps)
  have c: "0 \<le> itemCount ?p - 1" by (simp add: itemCount_listProps)
  have pos: "positiveSizes ?p (initInstanceProps ?p)"
    by (rule positiveSizes_initInstanceProps) (simp add: itemSize_listProps)
  have st: "\<exists>md ss. getItemMetadata ?p 0 (initInstanceProps ?p) = (Inr (Some md), ss) \<and>
                offset md < 0 + viewportSize ?p"
    by (simp add: getItemMetadata_def measureLoop.simps viewportSize_listProps)
  from getStopIndexForStartIndex_correct[OF wf _ c, of 0] pos st
  have "(\<exists>md sj. getItemMetadata ?p 2 (initInstanceProps ?p) = (Inr (Some md), sj) \<and>
             offset md + size' md < 0 + viewportSize ?p) \<and>
        (\<exists>md sr. getItemMetadata ?p 3 (initInstanceProps ?p) = (Inr (Some md), sr) \<and>
             0 + viewportSize ?p \<le> offset md + size' md) \<and>
        (\<exists>md sr. getItemMetadata ?p 3 (initInstanceProps ?p) = (Inr (Some md), sr) \<and>
             offset md < 0 + viewportSize ?p)"
    by (simp add: firstRender_stopIndex itemCount_listProps)
  then show ?thesis using wf c pos by (auto simp: firstRender_stopIndex)
qed

section \<open>The invariant of the metadata store\<close>

lemma getItemMetadata_keeps_wellFormed:
  "wellFormed s \<Longrightarrow> wellFormed (snd (getItemMetadata p i s))"
  using measured_wellFormed[of s p i] by (simp add: measured_def)

lemma getItemMetadata_keeps_nothingStale:
  assumes "wellFormed s \<and> nothingStale s"
  shows "wellFormed (snd (getItemMetadata p i s)) \<and> nothingStale (snd (getItemMetadata p i s))"
proof (cases "i \<le> lastMeasuredIndex s")
  case True
  then show ?thesis using assms by (simp add: getItemMetadata_cached)
next
  case False
  then have lt: "lastMeasuredIndex s < i" by simp
  have "nothingStale (snd (getItemMetadata p i s))"
    using assms lt
    by (simp add: getItemMetadata_measure nothingStale_def measureLoop_outside)
  then show ?thesis using assms getItemMetadata_keeps_wellFormed by blast
qed

lemma resetAfterIndex_wellFormed:
  "wellFormed s \<Longrightarrow> 0 \<le> k \<Longrightarrow> wellFormed (resetAfterIndex k s)"
  by (simp add: wellFormed_def resetAfterIndex_def)

lemma perform_preserves:
  assumes pres: "\<And>i s. I s \<Longrightarrow> I (snd (getItemMetadata p i s))"
      and I: "I s" and op: "\<not> isInvalidation op"
  shows "\<exists>s'. perform p op s = Some s' \<and> I s'"
proof (cases op)
  case (GetMetadata i)
  then show ?thesis using pres[OF I] by simp
next
  case (FindIndexForOffset off)
  then show ?thesis using findNearestItem_preserves[of I p s off, OF pres I]
    by (auto simp: getStartIndexForOffset_def)
next
  case (FindStopIndex i so)
  then show ?thesis using getStopIndexForStartIndex_preserves[of I p s i so, OF pres I]
    by simp
next
  case (GetOffsetForAlignment i a so)
  then show ?thesis using getOffsetForIndexAndAlignment_preserves[of I p s i a so, OF pres I]
    by simp
next
  case (InvalidateAfter k)
  then show ?thesis using op by simp
qed

lemma perform_wellFormed:
  assumes wf: "wellFormed s" and v: "validOperation op"
  shows "\<exists>s'. perform p op s = Some s' \<and> wellFormed s'"
proof (cases "isInvalidation op")
  case False
  show ?thesis
    by (rule perform_preserves[of wellFormed p s op, OF getItemMetadata_keeps_wellFormed wf False])
next
  case True
  then obtain k where "op = InvalidateAfter k" by (cases op) auto
  then show ?thesis using wf v by (simp add: resetAfterIndex_wellFormed)
qed

lemma performAll_wellFormed:
  "wellFormed s \<Longrightarrow> \<forall>po\<in>set ops. validOperation (snd po) \<Longrightarrow>
   \<exists>s'. performAll ops s = Some s' \<and> wellFormed s'"
proof (induction ops arbitrary: s)
  case Nil
  then show ?case by simp
next
  case (Cons po ops)
  from Cons.prems obtain s1 where s1: "perform (fst po) (snd po) s = Some s1" "wellFormed s1"
    using perform_wellFormed[of s "snd po" "fst po"] by auto
  from Cons.IH[OF s1(2)] Cons.prems(2) s1(1) show ?case by simp
qed

lemma performAll_nothingStale:
  "wellFormed s \<and> nothingStale s \<Longrightarrow> \<forall>po\<in>set ops. \<not> isInvalidation (snd po) \<Longrightarrow>
   \<exists>s'. performAll ops s = Some s' \<and> wellFormed s' \<and> nothingStale s'"
proof (induction ops arbitrary: s)
  case Nil
  then show ?case by simp
next
  case (Cons po ops)
  have "\<not> isInvalidation (snd po)" using Cons.prems(2) by simp
  from perform_preserves[of "\<lambda>s. wellFormed s \<and> nothingStale s" "fst po" s "snd po",
         OF getItemMetadata_keeps_nothingStale Cons.prems(1) this]
  obtain s1 where s1: "perform (fst po) (snd po) s = Some s1" "wellFormed s1 \<and> nothingStale s1"
    by auto
  from Cons.IH[OF s1(2)] Cons.prems(2) s1(1) show ?case by simp
qed

lemma wellFormed_consecutive:
  assumes wf: "wellFormed s" and i: "0 \<le> i" "i + 1 \<le> lastMeasuredIndex s"
  shows "\<exists>a b. getItemMetadata p i s = (Inr (Some a), s) \<and>
               getItemMetadata p (i + 1) s = (Inr (Some b), s) \<and>
               offset b = offset a + size' a"
proof -
  have "itemMetadataMap s i = Some \<lparr>offset = exactOffset p s i, size' = exactSize p s i\<rparr>"
       "itemMetadataMap s (i + 1) =
          Some \<lparr>offset = exactOffset p s (i + 1), size' = exactSize p s (i + 1)\<rparr>"
    using wf i wellFormed_exact[of s p] by simp_all
  then show ?thesis using i by (simp add: getItemMetadata_cached exactOffset_Suc)
qed

text \<open>
  C2, as amended. Every sequence of \<^verbatim>\<open>getItemMetadata\<close>, \<^verbatim>\<open>getStartIndexForOffset\<close>,
  \<^verbatim>\<open>getStopIndexForStartIndex\<close>, \<^verbatim>\<open>getOffsetForIndexAndAlignment\<close> and
  \<^verbatim>\<open>resetAfterIndex\<close> calls on a new instance, under any props (any size function, so
  also every positive one) and with any arguments, except that every index given to
  \<^verbatim>\<open>resetAfterIndex\<close> is at least \<open>0\<close>, runs to its end, and
  in the state it reaches every item \<open>i\<close> in \<open>[0, lastMeasuredIndex]\<close> has an entry whose
  offset is the sum of the sizes stored for the items \<open>0..i-1\<close>. Equivalently, for
  consecutive measured items \<open>i\<close> and \<open>i + 1\<close>, \<^verbatim>\<open>getItemMetadata\<close> returns for
  \<open>i + 1\<close> the offset of \<open>i\<close> plus the size of \<open>i\<close>, and does not change the state.
\<close>

theorem stored_offsets_are_cumulative:
  "\<forall>po\<in>set ops. validOperation (snd po) \<Longrightarrow>
   \<exists>s. performAll ops (initInstanceProps p0) = Some s \<and>
       - 1 \<le> lastMeasuredIndex s \<and>
       (\<forall>i\<in>{0..lastMeasuredIndex s}.
          \<exists>md. itemMetadataMap s i = Some md \<and>
               offset md = (\<Sum>j = 0..<i. storedSize (itemMetadataMap s) j)) \<and>
       (\<forall>p i. 0 \<le> i \<and> i + 1 \<le> lastMeasuredIndex s \<longrightarrow>
          (\<exists>a b. getItemMetadata p i s = (Inr (Some a), s) \<and>
                 getItemMetadata p (i + 1) s = (Inr (Some b), s) \<and>
                 offset b = offset a + size' a))"
proof -
  assume "\<forall>po\<in>set ops. validOperation (snd po)"
  from performAll_wellFormed[OF wellFormed_initInstanceProps this, of p0]
  obtain s where s: "performAll ops (initInstanceProps p0) = Some s" "wellFormed s" by blast
  have "\<forall>p i. 0 \<le> i \<and> i + 1 \<le> lastMeasuredIndex s \<longrightarrow>
          (\<exists>a b. getItemMetadata p i s = (Inr (Some a), s) \<and>
                 getItemMetadata p (i + 1) s = (Inr (Some b), s) \<and>
                 offset b = offset a + size' a)"
    using wellFormed_consecutive[OF s(2)] by blast
  with s show ?thesis unfolding wellFormed_def by blast
qed

lemma resetScenario_run:
  "map_option (\<lambda>s. (lastMeasuredIndex s, itemMetadataMap s 16))
     (performAll
        [(listProps 20 (\<lambda>i. 25 + i) 25, FindIndexForOffset 0),
         (listProps 20 (\<lambda>i. 25 + i) 25, FindStopIndex 0 0),
         (listProps 20 (\<lambda>i. 25 + i) 25, GetMetadata 19),
         (listProps 20 (\<lambda>i. 75) 25, InvalidateAfter 15),
         (listProps 20 (\<lambda>i. 75) 25, GetOffsetForAlignment 19 Auto 0)]
        (initInstanceProps (listProps 20 (\<lambda>i. 25 + i) 25))) =
   Some (19, Some \<lparr>offset = 555, size' = 75\<rparr>)"
  by (simp add: getStartIndexForOffset_def findNearestItem_def
        findNearestItemBinarySearch.simps getStopIndexForStartIndex_def stopIndexLoop.simps
        getItemMetadata_property_def property_def getOffsetForIndexAndAlignment_def
        getEstimatedTotalSize_def resetAfterIndex_def
        getItemMetadata_def measureLoop.simps initInstanceProps_def
        listProps_def viewportSize_def Let_def)

theorem stored_offsets_are_cumulative_witness:
  "validOperation (InvalidateAfter 15) \<and>
   (\<exists>s. performAll
        [(listProps 20 (\<lambda>i. 25 + i) 25, FindIndexForOffset 0),
         (listProps 20 (\<lambda>i. 25 + i) 25, FindStopIndex 0 0),
         (listProps 20 (\<lambda>i. 25 + i) 25, GetMetadata 19),
         (listProps 20 (\<lambda>i. 75) 25, InvalidateAfter 15),
         (listProps 20 (\<lambda>i. 75) 25, GetOffsetForAlignment 19 Auto 0)]
        (initInstanceProps (listProps 20 (\<lambda>i. 25 + i) 25)) = Some s \<and>
      lastMeasuredIndex s = 19 \<and>
      itemMetadataMap s 16 = Some \<lparr>offset = 555, size' = 75\<rparr> \<and>
      (\<Sum>j = 0..<16. storedSize (itemMetadataMap s) j) = 555)"
proof -
  let ?p1 = "listProps 20 (\<lambda>i. 25 + i) 25" and ?p2 = "listProps 20 (\<lambda>i. 75) 25"
  let ?ops = "[(?p1, FindIndexForOffset 0), (?p1, FindStopIndex 0 0), (?p1, GetMetadata 19),
               (?p2, InvalidateAfter 15), (?p2, GetOffsetForAlignment 19 Auto 0)]"
  have valid: "\<forall>po\<in>set ?ops. validOperation (snd po)" by simp
  from stored_offsets_are_cumulative[OF valid, of ?p1]
  obtain s where run: "performAll ?ops (initInstanceProps ?p1) = Some s"
    and sums: "\<forall>i\<in>{0..lastMeasuredIndex s}.
          \<exists>md. itemMetadataMap s i = Some md \<and>
               offset md = (\<Sum>j = 0..<i. storedSize (itemMetadataMap s) j)"
    by blast
  from resetScenario_run run
  have l: "lastMeasuredIndex s = 19"
    and e: "itemMetadataMap s 16 = Some \<lparr>offset = 555, size' = 75\<rparr>" by simp_all
  have "(16::int) \<in> {0..lastMeasuredIndex s}" using l by simp
  from bspec[OF sums this] obtain md where
    "itemMetadataMap s 16 = Some md"
    "offset md = (\<Sum>j = 0..<16. storedSize (itemMetadataMap s) j)" by blast
  with e have "(\<Sum>j = 0..<16. storedSize (itemMetadataMap s) j) = 555" by simp
  with run l e show ?thesis by simp
qed

text \<open>
  C2 as first stated (any sequence of calls) fails for a reset index below zero.
  \<^verbatim>\<open>resetAfterIndex(-2)\<close> on a new instance puts the watermark at \<open>-3\<close>; measuring
  item \<open>0\<close> with a size function that is \<open>25\<close> everywhere then stores entries for the
  indices \<open>-2\<close> and \<open>-1\<close> and puts item \<open>0\<close> at offset \<open>50\<close>, while no size is
  stored before item \<open>0\<close> among the items from \<open>0\<close> on: the state reached is not
  well-formed.
\<close>

theorem stored_offsets_negative_reset_counterexample:
  "performAll
     [(listProps 20 (\<lambda>i. 25) 25, InvalidateAfter (- 2)),
      (listProps 20 (\<lambda>i. 25) 25, GetMetadata 0)]
     (initInstanceProps (listProps 20 (\<lambda>i. 25) 25)) =
   Some (measured (listProps 20 (\<lambda>i. 25) 25) 0
           (resetAfterIndex (- 2) (initInstanceProps (listProps 20 (\<lambda>i. 25) 25)))) \<and>
   lastMeasuredIndex
     (measured (listProps 20 (\<lambda>i. 25) 25) 0
        (resetAfterIndex (- 2) (initInstanceProps (listProps 20 (\<lambda>i. 25) 25)))) = 0 \<and>
   itemMetadataMap
     (measured (listProps 20 (\<lambda>i. 25) 25) 0
        (resetAfterIndex (- 2) (initInstanceProps (listProps 20 (\<lambda>i. 25) 25)))) 0 =
   Some \<lparr>offset = 50, size' = 25\<rparr> \<and>
   \<not> wellFormed
     (measured (listProps 20 (\<lambda>i. 25) 25) 0
        (resetAfterIndex (- 2) (initInstanceProps (listProps 20 (\<lambda>i. 25) 25))))"
proof -
  let ?p = "listProps 20 (\<lambda>i. 25) 25"
  let ?s = "measured ?p 0 (resetAfterIndex (- 2) (initInstanceProps ?p))"
  have run: "performAll [(?p, InvalidateAfter (- 2)), (?p, GetMetadata 0)]
               (initInstanceProps ?p) = Some ?s"
    by (simp add: measured_def)
  have l: "lastMeasuredIndex ?s = 0"
    by (simp add: measured_def resetAfterIndex_def getItemMetadata_def measureLoop.simps
          listProps_def)
  have e: "itemMetadataMap ?s 0 = Some \<lparr>offset = 50, size' = 25\<rparr>"
    by (simp add: measured_def resetAfterIndex_def getItemMetadata_def measureLoop.simps
          listProps_def)
  have "\<not> wellFormed ?s"
  proof
    assume "wellFormed ?s"
    then have "\<forall>i\<in>{0..lastMeasuredIndex ?s}.
        \<exists>md. itemMetadataMap ?s i = Some md \<and>
             offset md = (\<Sum>j = 0..<i. storedSize (itemMetadataMap ?s) j)"
      by (simp add: wellFormed_def)
    moreover have "(0::int) \<in> {0..lastMeasuredIndex ?s}" using l by simp
    ultimately obtain md where
      "itemMetadataMap ?s 0 = Some md"
      "offset md = (\<Sum>j = 0..<0. storedSize (itemMetadataMap ?s) j)" by blast
    with e show False by simp
  qed
  with run l e show ?thesis by simp
qed

section \<open>Reading a size without measuring\<close>

text \<open>
  C10, as amended. \<^verbatim>\<open>getItemSize\<close> reads the metadata map and never measures. For
  every index in \<open>[0, lastMeasuredIndex]\<close> of a well-formed state it returns the size
  \<^verbatim>\<open>getItemMetadata\<close> returns. For an index with no entry it throws, while
  \<^verbatim>\<open>getItemMetadata\<close> measures on demand. In a state reached without any invalidation
  every index above the watermark is without entry, so there \<^verbatim>\<open>getItemSize\<close> yields no
  size.
\<close>

theorem getItemSize_reads_the_store:
  "(wellFormed s \<and> 0 \<le> index \<and> index \<le> lastMeasuredIndex s \<longrightarrow>
      (\<exists>md. getItemMetadata p index s = (Inr (Some md), s) \<and>
            getItemSize p index s = Inr (size' md))) \<and>
   (itemMetadataMap s index = None \<longrightarrow> getItemSize p index s = Inl TypeError) \<and>
   ((\<forall>po\<in>set ops. \<not> isInvalidation (snd po)) \<and>
    performAll ops (initInstanceProps p0) = Some s \<and> lastMeasuredIndex s < index \<longrightarrow>
      getItemSize p index s = Inl TypeError \<and>
      (\<exists>md s'. getItemMetadata p index s = (Inr (Some md), s') \<and>
               getItemOffset p index s = (Inr (offset md), s')))"
proof (intro conjI impI)
  assume a: "wellFormed s \<and> 0 \<le> index \<and> index \<le> lastMeasuredIndex s"
  then have "itemMetadataMap s index =
      Some \<lparr>offset = exactOffset p s index, size' = exactSize p s index\<rparr>"
    using wellFormed_exact[of s p] by simp
  then show "\<exists>md. getItemMetadata p index s = (Inr (Some md), s) \<and>
            getItemSize p index s = Inr (size' md)"
    using a by (simp add: getItemMetadata_cached getItemSize_def property_def)
next
  assume "itemMetadataMap s index = None"
  then show "getItemSize p index s = Inl TypeError"
    by (simp add: getItemSize_def property_def)
next
  assume a: "(\<forall>po\<in>set ops. \<not> isInvalidation (snd po)) \<and>
    performAll ops (initInstanceProps p0) = Some s \<and> lastMeasuredIndex s < index"
  have "wellFormed (initInstanceProps p0) \<and> nothingStale (initInstanceProps p0)"
    by (simp add: wellFormed_initInstanceProps nothingStale_initInstanceProps)
  from performAll_nothingStale[OF this, of ops] a
  have s: "wellFormed s" "nothingStale s" by auto
  then show "getItemSize p index s = Inl TypeError"
    using a by (simp add: nothingStale_def getItemSize_def property_def)
  have "0 \<le> index" using s(1) a by (simp add: wellFormed_def)
  then show "\<exists>md s'. getItemMetadata p index s = (Inr (Some md), s') \<and>
               getItemOffset p index s = (Inr (offset md), s')"
    using getItemMetadata_wellFormed[OF s(1), of index p]
    by (simp add: getItemOffset_def getItemMetadata_property_def property_def)
qed

lemma threeMeasured_run:
  "performAll [(listProps 20 (\<lambda>i. 25 + i) 25, GetMetadata 2)]
     (initInstanceProps (listProps 20 (\<lambda>i. 25 + i) 25)) =
   Some (measured (listProps 20 (\<lambda>i. 25 + i) 25) 2
           (initInstanceProps (listProps 20 (\<lambda>i. 25 + i) 25)))"
  by (simp add: measured_def)

theorem getItemSize_reads_the_store_witness:
  "wellFormed (measured (listProps 20 (\<lambda>i. 25 + i) 25) 2
                 (initInstanceProps (listProps 20 (\<lambda>i. 25 + i) 25))) \<and>
   (1::int) \<le> lastMeasuredIndex (measured (listProps 20 (\<lambda>i. 25 + i) 25) 2
                 (initInstanceProps (listProps 20 (\<lambda>i. 25 + i) 25))) \<and>
   getItemSize (listProps 20 (\<lambda>i. 25 + i) 25) 1
     (measured (listProps 20 (\<lambda>i. 25 + i) 25) 2
        (initInstanceProps (listProps 20 (\<lambda>i. 25 + i) 25))) = Inr 26 \<and>
   \<not> isInvalidation (GetMetadata 2) \<and>
   lastMeasuredIndex (measured (listProps 20 (\<lambda>i. 25 + i) 25) 2
                 (initInstanceProps (listProps 20 (\<lambda>i. 25 + i) 25))) < 5 \<and>
   getItemSize (listProps 20 (\<lambda>i. 25 + i) 25) 5
     (measured (listProps 20 (\<lambda>i. 25 + i) 25) 2
        (initInstanceProps (listProps 20 (\<lambda>i. 25 + i) 25))) = Inl TypeError \<and>
   (\<exists>md s'. getItemMetadata (listProps 20 (\<lambda>i. 25 + i) 25) 5
     (measured (listProps 20 (\<lambda>i. 25 + i) 25) 2
        (initInstanceProps (listProps 20 (\<lambda>i. 25 + i) 25))) = (Inr (Some md), s') \<and>
     getItemOffset (listProps 20 (\<lambda>i. 25 + i) 25) 5
     (measured (listProps 20 (\<lambda>i. 25 + i) 25) 2
        (initInstanceProps (listProps 20 (\<lambda>i. 25 + i) 25))) = (Inr (offset md), s'))"
proof -
  let ?p = "listProps 20 (\<lambda>i. 25 + i) 25"
  let ?s = "measured ?p 2 (initInstanceProps ?p)"
  have wf: "wellFormed ?s"
    by (rule measured_wellFormed) (rule wellFormed_initInstanceProps)
  have l: "lastMeasuredIndex ?s = 2"
    by (simp add: measured_lastMeasuredIndex[OF wellFormed_initInstanceProps])
  have e: "itemMetadataMap ?s 1 = Some \<lparr>offset = 25, size' = 26\<rparr>"
    by (simp add: measured_def getItemMetadata_def measureLoop.simps listProps_def)
  have ops: "\<forall>po\<in>set [(?p, GetMetadata 2)]. \<not> isInvalidation (snd po)" by simp
  from getItemSize_reads_the_store[of ?s 1 ?p "[(?p, GetMetadata 2)]" ?p]
       getItemSize_reads_the_store[of ?s 5 ?p "[(?p, GetMetadata 2)]" ?p]
  show ?thesis
    using wf l e ops threeMeasured_run by (simp add: getItemMetadata_cached)
qed

text \<open>
  C10 as first stated (no size for every index above the watermark) fails after an
  invalidation, which keeps the entries: with items \<open>0..2\<close> measured and then
  \<^verbatim>\<open>resetAfterIndex(1)\<close>, the watermark is \<open>0\<close> and \<^verbatim>\<open>getItemSize(2)\<close> still
  returns the stale size \<open>27\<close>.
\<close>

theorem getItemSize_stale_counterexample:
  "lastMeasuredIndex
     (resetAfterIndex 1 (measured (listProps 20 (\<lambda>i. 25 + i) 25) 2
        (initInstanceProps (listProps 20 (\<lambda>i. 25 + i) 25)))) < 2 \<and>
   getItemSize (listProps 20 (\<lambda>i. 25 + i) 25) 2
     (resetAfterIndex 1 (measured (listProps 20 (\<lambda>i. 25 + i) 25) 2
        (initInstanceProps (listProps 20 (\<lambda>i. 25 + i) 25)))) = Inr 27"
  by (simp add: getItemSize_def property_def resetAfterIndex_def measured_def
        getItemMetadata_def measureLoop.simps listProps_def)

section \<open>Offsets that are not positive\<close>

lemma storedPositive_exactOffset:
  assumes sp: "storedPositive s" and j: "0 < j" "j \<le> lastMeasuredIndex s + 1"
  shows "0 < exactOffset p s j"
proof -
  have "exactOffset p s j = (\<Sum>k = 0..<j. storedSize (itemMetadataMap s) k)"
    using j by (simp add: exactOffset_stored)
  moreover have "0 < (\<Sum>k = 0..<j. storedSize (itemMetadataMap s) k)"
    using sp j by (intro sum_pos) (auto simp: storedPositive_def)
  ultimately show ?thesis by simp
qed

lemma binarySearch_nonpositive:
  "wellFormed s \<Longrightarrow> storedPositive s \<Longrightarrow> off \<le> 0 \<Longrightarrow> high \<le> lastMeasuredIndex s \<Longrightarrow>
   findNearestItemBinarySearch p s high 0 off = (Inr 0, s)"
proof (induction "nat (high + 1)" arbitrary: high rule: less_induct)
  case less
  note wf = \<open>wellFormed s\<close> and sp = \<open>storedPositive s\<close>
  show ?case
  proof (cases "0 \<le> high")
    case False
    then show ?thesis by (subst findNearestItemBinarySearch.simps) simp
  next
    case True
    define middle where "middle = high div 2"
    have mid: "0 \<le> middle" "middle \<le> high" using True by (auto simp: middle_def)
    then have cached: "middle \<le> lastMeasuredIndex s" using less.prems by simp
    have r: "getItemMetadata_property offset p middle s = (Inr (exactOffset p s middle), s)"
      using wf mid(1) cached
      by (simp add: getItemMetadata_property_wellFormed measured_cached)
    have down: "findNearestItemBinarySearch p s (middle - 1) 0 off = (Inr 0, s)"
      using mid less.prems by (intro less.hyps) auto
    show ?thesis
    proof (cases "middle = 0")
      case m0: True
      then have "exactOffset p s middle = 0" by simp
      then show ?thesis using \<open>0 \<le> high\<close> r down less.prems(3) m0
        by (subst findNearestItemBinarySearch.simps)
           (auto simp: Let_def middle_def[symmetric])
    next
      case False
      then have "0 < exactOffset p s middle"
        using storedPositive_exactOffset[OF sp, of middle p] mid cached by simp
      then show ?thesis using \<open>0 \<le> high\<close> r down less.prems(3)
        by (subst findNearestItemBinarySearch.simps)
           (auto simp: Let_def middle_def[symmetric])
    qed
  qed
qed

text \<open>
  C8, as amended. In every well-formed state whose stored sizes are positive, whatever
  \<open>itemCount\<close> is, \<^verbatim>\<open>findNearestItem\<close> returns \<open>0\<close> for every offset that is not
  positive, and leaves the state as it was. This includes the state in which nothing has
  been measured.
\<close>

theorem findNearestItem_nonpositive_offset:
  "wellFormed s \<Longrightarrow> storedPositive s \<Longrightarrow> off \<le> 0 \<Longrightarrow>
   findNearestItem p s off = Some (Inr 0, s)"
proof -
  assume wf: "wellFormed s" and sp: "storedPositive s" and off: "off \<le> 0"
  let ?l = "lastMeasuredIndex s"
  define lmo where "lmo = (if ?l > 0 then exactOffset p s ?l else 0)"
  have lmo: "(if ?l > 0 then property offset (itemMetadataMap s ?l) else Inr 0) = Inr lmo"
    using wf wellFormed_exact[of s p] by (simp add: lmo_def property_def)
  have "0 \<le> lmo"
    using storedPositive_exactOffset[OF sp, of ?l p] by (cases "0 < ?l") (simp_all add: lmo_def)
  then have "off \<le> lmo" using off by simp
  then have "findNearestItem p s off = Some (findNearestItemBinarySearch p s ?l 0 off)"
    using lmo by (simp add: findNearestItem_def Let_def)
  then show ?thesis using binarySearch_nonpositive[OF wf sp off, of ?l p] by simp
qed

theorem findNearestItem_nonpositive_offset_witness:
  "wellFormed (measured (listProps 100 (\<lambda>i. 25) 50) 4
                 (initInstanceProps (listProps 100 (\<lambda>i. 25) 50))) \<and>
   storedPositive (measured (listProps 100 (\<lambda>i. 25) 50) 4
                 (initInstanceProps (listProps 100 (\<lambda>i. 25) 50))) \<and>
   - 5 \<le> (0::int) \<and>
   findNearestItem (listProps 100 (\<lambda>i. 25) 50)
     (measured (listProps 100 (\<lambda>i. 25) 50) 4
        (initInstanceProps (listProps 100 (\<lambda>i. 25) 50))) (- 5) =
   Some (Inr 0, measured (listProps 100 (\<lambda>i. 25) 50) 4
                  (initInstanceProps (listProps 100 (\<lambda>i. 25) 50))) \<and>
   wellFormed (initInstanceProps (listProps 100 (\<lambda>i. 25) 50)) \<and>
   storedPositive (initInstanceProps (listProps 100 (\<lambda>i. 25) 50)) \<and>
   findNearestItem (listProps 100 (\<lambda>i. 25) 50)
     (initInstanceProps (listProps 100 (\<lambda>i. 25) 50)) 0 =
   Some (Inr 0, initInstanceProps (listProps 100 (\<lambda>i. 25) 50))"
proof -
  let ?p = "listProps 100 (\<lambda>i. 25) 50"
  let ?init = "initInstanceProps ?p"
  let ?s = "measured ?p 4 ?init"
  have wf0: "wellFormed ?init" by (rule wellFormed_initInstanceProps)
  have pos0: "positiveSizes ?p ?init"
    by (rule positiveSizes_initInstanceProps) (simp add: itemSize_listProps)
  have wf: "wellFormed ?s" by (rule measured_wellFormed) (rule wf0)
  have sp: "storedPositive ?s"
    using positiveSizes_measured[OF wf0 pos0] by (rule positiveSizes_storedPositive)
  have sp0: "storedPositive ?init" using pos0 by (rule positiveSizes_storedPositive)
  from findNearestItem_nonpositive_offset[OF wf sp, of "- 5" ?p]
       findNearestItem_nonpositive_offset[OF wf0 sp0, of 0 ?p]
  show ?thesis using wf sp wf0 sp0 by simp
qed

text \<open>
  C8 as first stated (\<open>0\<close> for every offset while nothing has been measured) fails for
  a positive offset: in a new instance \<^verbatim>\<open>findNearestItem\<close> does not return \<open>0\<close> for
  offset \<open>10\<close>, it throws.
\<close>

theorem findNearestItem_unmeasured_counterexample:
  "lastMeasuredIndex (initInstanceProps (listProps 100 (\<lambda>i. 25) 50)) = - 1 \<and>
   findNearestItem (listProps 100 (\<lambda>i. 25) 50)
     (initInstanceProps (listProps 100 (\<lambda>i. 25) 50)) 10 =
   Some (Inl TypeError, initInstanceProps (listProps 100 (\<lambda>i. 25) 50))"
  by (simp add: findNearestItem_def findNearestItemExponentialSearch_def
        exponentialLoop.simps getItemMetadata_property_def property_def
        getItemMetadata_def itemCount_listProps Let_def)

section \<open>Search correctness\<close>

text \<open>
  Once an item has been measured (or for offset \<open>0\<close>), with a watermark below
  \<open>itemCount\<close> and positive sizes, \<^verbatim>\<open>findNearestItem\<close> returns, for every offset from
  \<open>0\<close> up to the exact total size, the one index in \<open>[0, itemCount - 1]\<close> whose item
  contains the offset, which is the largest index whose offset does not exceed it.
  Offsets and sizes are those \<^verbatim>\<open>getItemMetadata\<close> returns.
\<close>

lemma findNearestItem_finds_the_item:
  assumes wf: "wellFormed s" and pos: "positiveSizes p s"
      and lmi: "0 \<le> lastMeasuredIndex s \<or> off = 0" "lastMeasuredIndex s \<le> itemCount p - 1"
      and cnt: "1 \<le> itemCount p"
      and last: "getItemMetadata p (itemCount p - 1) s = (Inr (Some mdl), sl)"
      and off: "0 \<le> off" "off < offset mdl + size' mdl"
  shows "\<exists>r s' md sr.
           findNearestItem p s off = Some (Inr r, s') \<and> 0 \<le> r \<and> r \<le> itemCount p - 1 \<and>
           getItemMetadata p r s = (Inr (Some md), sr) \<and>
           offset md \<le> off \<and> off < offset md + size' md \<and>
           (\<forall>i md' si. 0 \<le> i \<and> getItemMetadata p i s = (Inr (Some md'), si) \<and>
                       offset md' \<le> off \<and> off < offset md' + size' md' \<longrightarrow> i = r) \<and>
           (\<forall>i md' si. 0 \<le> i \<and> getItemMetadata p i s = (Inr (Some md'), si) \<and>
                       offset md' \<le> off \<longrightarrow> i \<le> r)"
proof -
  have c0: "0 \<le> itemCount p - 1" using cnt by simp
  have "offset mdl + size' mdl = exactOffset p s (itemCount p - 1 + 1)"
    using getItemMetadata_end[OF wf c0 last] by simp
  then have total: "off < exactOffset p s (itemCount p)" using off by simp
  from findNearestItem_correct[OF wf pos lmi cnt off(1) total]
  obtain r s' where res:
    "findNearestItem p s off = Some (Inr r, s')" "0 \<le> r" "r \<le> itemCount p - 1"
    "exactOffset p s r \<le> off" "off < exactOffset p s (r + 1)"
    by blast
  let ?md = "\<lparr>offset = exactOffset p s r, size' = exactSize p s r\<rparr>"
  have g: "getItemMetadata p r s = (Inr (Some ?md), measured p r s)"
    using wf res(2) by (rule getItemMetadata_wellFormed)
  have inside: "offset ?md \<le> off \<and> off < offset ?md + size' ?md"
    using res(2,4,5) by (simp add: exactOffset_Suc)
  have largest: "i \<le> r"
    if i: "0 \<le> i" "getItemMetadata p i s = (Inr (Some md'), si)" "offset md' \<le> off"
    for i md' si
  proof (rule ccontr)
    assume "\<not> i \<le> r"
    then have "r + 1 \<le> i" by simp
    moreover have "0 \<le> r + 1" using res(2) by simp
    ultimately have "exactOffset p s (r + 1) \<le> exactOffset p s i"
      using exactOffset_mono_le[OF pos] by blast
    moreover have "offset md' = exactOffset p s i"
      using getItemMetadata_end[OF wf i(1,2)] by simp
    ultimately show False using i(3) res(5) by simp
  qed
  have unique: "i = r"
    if i: "0 \<le> i" "getItemMetadata p i s = (Inr (Some md'), si)" "offset md' \<le> off"
          "off < offset md' + size' md'"
    for i md' si
  proof (rule ccontr)
    assume "i \<noteq> r"
    with largest[OF i(1-3)] have "i + 1 \<le> r" by simp
    moreover have "0 \<le> i + 1" using i(1) by simp
    ultimately have "exactOffset p s (i + 1) \<le> exactOffset p s r"
      using exactOffset_mono_le[OF pos] by blast
    moreover have "offset md' + size' md' = exactOffset p s (i + 1)"
      using getItemMetadata_end[OF wf i(1,2)] by simp
    ultimately show False using i(4) res(4) by simp
  qed
  show ?thesis
    using res(1-3) g inside unique largest by blast
qed

text \<open>
  C1 says that for every offset \<open>o\<close> with \<open>0 \<le> o\<close> below the exact total size, positive
  sizes and \<open>itemCount \<ge> 1\<close>, \<^verbatim>\<open>findNearestItem\<close> returns the unique index \<open>i\<close> with
  \<open>offset(i) \<le> o < offset(i) + size(i)\<close>. The code departs from it in a new instance:
  with three items of size 25, offset \<open>30\<close> lies in item \<open>1\<close> (which spans \<open>25..50\<close>),
  but the exponential search starts at index \<open>lastMeasuredIndex = -1\<close>, reads the offset
  of the entry \<open>-1\<close>, which does not exist, and throws.
\<close>

theorem findNearestItem_throws_before_first_measurement:
  "lastMeasuredIndex (initInstanceProps (listProps 3 (\<lambda>i. 25) 50)) = - 1 \<and>
   findNearestItem (listProps 3 (\<lambda>i. 25) 50)
     (initInstanceProps (listProps 3 (\<lambda>i. 25) 50)) 30 =
   Some (Inl TypeError, initInstanceProps (listProps 3 (\<lambda>i. 25) 50)) \<and>
   fst (getItemMetadata (listProps 3 (\<lambda>i. 25) 50) 1
          (initInstanceProps (listProps 3 (\<lambda>i. 25) 50))) =
   Inr (Some \<lparr>offset = 25, size' = 25\<rparr>) \<and>
   fst (getItemMetadata (listProps 3 (\<lambda>i. 25) 50) 2
          (initInstanceProps (listProps 3 (\<lambda>i. 25) 50))) =
   Inr (Some \<lparr>offset = 50, size' = 25\<rparr>)"
  by (simp add: findNearestItem_def findNearestItemExponentialSearch_def
        exponentialLoop.simps getItemMetadata_property_def property_def
        getItemMetadata_def measureLoop.simps itemCount_listProps itemSize_listProps Let_def)

text \<open>The same search once item \<open>0\<close> has been measured.\<close>

lemma findNearestItem_after_first_measurement:
  "findNearestItem (listProps 3 (\<lambda>i. 25) 50)
     (measured (listProps 3 (\<lambda>i. 25) 50) 0
        (initInstanceProps (listProps 3 (\<lambda>i. 25) 50))) 30 =
   Some (Inr 1, measured (listProps 3 (\<lambda>i. 25) 50) 2
                  (initInstanceProps (listProps 3 (\<lambda>i. 25) 50)))"
  by (simp add: findNearestItem_def findNearestItemExponentialSearch_def
        exponentialLoop.simps findNearestItemBinarySearch.simps
        getItemMetadata_property_def property_def measured_def
        getItemMetadata_def measureLoop.simps listProps_def initInstanceProps_def Let_def)

end
